theory Spec2Isabelle
  imports
    Complex_Main
    "HOL-Library.AList"
    "HOL-Library.Char_ord"
    "HOL-Library.List_Lexorder"
    "HOL-Library.Multiset"
begin

section \<open>Overview\<close>

text \<open>
  A shallow embedding of the freight-rate services of the Shopify integration: the rate
  combiner and its formatting, the TTL cache, the cache key and the in-flight map of the
  freight request, the SKU mapping resolver, and the cart estimate endpoint. The first
  half of the theory holds the definitions, each translated from the function of the same
  name; the second half the properties, one theorem for each statement of the
  specification that is examined.
\<close>

section \<open>JavaScript values used by the services\<close>

text \<open>
  Strings are lists of 8-bit characters. \<open>String.prototype.trim\<close> removes the
  white space and line terminators of ECMAScript at both ends; in the 8-bit range these
  are TAB, LF, VT, FF, CR, SPACE and NBSP.
\<close>

definition isWhiteSpace :: "char \<Rightarrow> bool" where
  "isWhiteSpace c = (of_char c \<in> {9, 10, 11, 12, 13, 32, 160 :: nat})"

definition trim :: "string \<Rightarrow> string" where
  "trim s = rev (dropWhile isWhiteSpace (rev (dropWhile isWhiteSpace s)))"

text \<open>
  \<open>x?.trim()\<close> is \<open>undefined\<close> (here \<open>None\<close>) when \<open>x\<close> is null or undefined,
  and \<open>s || d\<close> on a string-or-undefined takes \<open>d\<close> when \<open>s\<close> is undefined or empty.
\<close>

definition optTrim :: "string option \<Rightarrow> string option" where
  "optTrim x = map_option trim x"

definition orElse :: "string option \<Rightarrow> string \<Rightarrow> string" where
  "orElse x d = (case x of None \<Rightarrow> d | Some s \<Rightarrow> if s = [] then d else s)"

text \<open>
  \<open>Array.from(new Set(xs))\<close>, and the keys of a \<open>Set\<close> or \<open>Map\<close> filled from
  \<open>xs\<close>: the elements in the order of their first occurrence.
\<close>

definition setInsertionOrder :: "'a list \<Rightarrow> 'a list" where
  "setInsertionOrder xs = foldl (\<lambda>seen x. if x \<in> set seen then seen else seen @ [x]) [] xs"

subsection \<open>Double-precision arithmetic and Math.round\<close>

text \<open>
  A finite JavaScript number is the rational it stands for. An arithmetic operation is the
  IEEE 754 binary64 one: the exact result rounded to the nearest number with a 53-bit
  significand, ties to the even significand, with the subnormal spacing below
  \<open>2^-1022\<close>. A decimal text or literal such as \<open>19.995\<close> denotes the double nearest to
  it in the same way. Infinities are outside the model: it covers the numbers whose
  rounded value is finite. Comparisons of doubles are exact.
\<close>

function bitLength :: "int \<Rightarrow> int" where
  "bitLength n = (if n \<le> 0 then 0 else 1 + bitLength (n div 2))"
  by pat_completeness auto
termination
  by (relation "measure nat") auto

declare bitLength.simps [simp del]

text \<open>\<open>floorLog2 x\<close> is the integer \<open>k\<close> with \<open>2^k \<le> x < 2^(k+1)\<close>, for positive \<open>x\<close>.\<close>

definition floorLog2 :: "rat \<Rightarrow> int" where
  "floorLog2 x =
     (let p = fst (quotient_of x); q = snd (quotient_of x);
          k = bitLength p - bitLength q
      in if 2 powi k \<le> x then k else k - 1)"

definition roundHalfEven :: "rat \<Rightarrow> int" where
  "roundHalfEven x =
     (let f = \<lfloor>x\<rfloor>; d = x - of_int f
      in if d < 1 / 2 then f else if 1 / 2 < d then f + 1 else if even f then f else f + 1)"

definition binary64 :: "rat \<Rightarrow> rat" where
  "binary64 x =
     (if x = 0 then 0
      else let e = max (floorLog2 \<bar>x\<bar>) (- 1022) - 52
           in of_int (roundHalfEven (x / 2 powi e)) * 2 powi e)"

definition jsMul :: "rat \<Rightarrow> rat \<Rightarrow> rat" where
  "jsMul a b = binary64 (a * b)"

definition jsAdd :: "rat \<Rightarrow> rat \<Rightarrow> rat" where
  "jsAdd a b = binary64 (a + b)"


text \<open>\<open>Math.round\<close>: the nearest integer, a half going up.\<close>

definition mathRound :: "rat \<Rightarrow> int" where
  "mathRound x = \<lfloor>x + 1 / 2\<rfloor>"

text \<open>
  The fields of the input that the code passes through \<open>parseFloat(String(v))\<close> and
  \<open>parseInt(String(v), 10)\<close> hold the number that the text of \<open>v\<close> denotes, \<open>None\<close>
  where the parse gives \<open>NaN\<close>. \<open>parseFloat\<close> gives the double nearest to that number
  (a value that is a number already comes back as it is), and \<open>n || 0\<close> replaces
  \<open>NaN\<close> (and zero) by zero.
\<close>

definition numOrZero :: "rat option \<Rightarrow> rat" where
  "numOrZero n = (case n of None \<Rightarrow> 0 | Some r \<Rightarrow> binary64 r)"

definition intOrZero :: "int option \<Rightarrow> int" where
  "intOrZero n = (case n of None \<Rightarrow> 0 | Some i \<Rightarrow> i)"

section \<open>Rate combiner (rate-combiner.server.ts)\<close>

record IngramCarrier =
  carrierCode :: "string option"
  shipVia :: "string option"
  carrierMode :: "string option"
  estimatedFreightCharge :: "rat option"
  daysInTransit :: "int option"

record IngramDistribution =
  shipFromBranchNumber :: string
  carrierList :: "IngramCarrier list option"

record RateLeg =
  branchNumber :: string
  charge :: rat
  legDaysInTransit :: int

record CombinedRate =
  rateCarrierCode :: string
  rateShipVia :: string
  rateCarrierMode :: string
  totalCharge :: rat
  maxDaysInTransit :: int
  distributions :: "RateLeg list"
  isComplete :: bool

text \<open>\<open>dist.carrierList ?? []\<close>\<close>

definition carriersOf :: "IngramDistribution \<Rightarrow> IngramCarrier list" where
  "carriersOf dst = (case carrierList dst of None \<Rightarrow> [] | Some cs \<Rightarrow> cs)"

text \<open>
  \<open>Array.prototype.sort\<close> with the comparator \<open>a.totalCharge - b.totalCharge\<close> is a
  stable sort by \<open>totalCharge\<close>: the difference of two doubles has the sign of their
  exact difference.
\<close>

definition sortByCharge :: "CombinedRate list \<Rightarrow> CombinedRate list" where
  "sortByCharge rs = sort_key totalCharge rs"

subsection \<open>One distribution: its carriers directly\<close>

definition singleRate :: "IngramDistribution \<Rightarrow> IngramCarrier \<Rightarrow> CombinedRate" where
  "singleRate dst carrier =
     \<lparr> rateCarrierCode = orElse (optTrim (carrierCode carrier)) [],
       rateShipVia = orElse (optTrim (shipVia carrier)) [],
       rateCarrierMode = orElse (optTrim (carrierMode carrier)) [],
       totalCharge = numOrZero (estimatedFreightCharge carrier),
       maxDaysInTransit = intOrZero (daysInTransit carrier),
       distributions =
         [\<lparr> branchNumber = shipFromBranchNumber dst,
            charge = numOrZero (estimatedFreightCharge carrier),
            legDaysInTransit = intOrZero (daysInTransit carrier) \<rparr>],
       isComplete = True \<rparr>"

definition combineSingle :: "IngramDistribution \<Rightarrow> CombinedRate list" where
  "combineSingle dst =
     sortByCharge
       (filter (\<lambda>rate. rateCarrierCode rate \<noteq> [] \<and> totalCharge rate > 0)
          (map (singleRate dst) (carriersOf dst)))"

subsection \<open>Several distributions: the carrier map\<close>

text \<open>
  A JavaScript \<open>Map\<close> iterates in insertion order and \<open>set\<close> on a key that is present
  replaces the value in place: an association list under \<open>AList.update\<close>. The inner map
  goes from branch number to the pair (charge, daysInTransit).
\<close>

record CarrierData =
  cdShipVia :: string
  cdCarrierMode :: string
  cdDistributions :: "(string \<times> (rat \<times> int)) list"

type_synonym CarrierMap = "(string \<times> CarrierData) list"

text \<open>The body of the inner loop, for one carrier entry of the distribution \<open>branch\<close>.\<close>

definition addCarrier :: "string \<Rightarrow> CarrierMap \<Rightarrow> IngramCarrier \<Rightarrow> CarrierMap" where
  "addCarrier branch carrierMap carrier =
     (case optTrim (carrierCode carrier) of
        None \<Rightarrow> carrierMap
      | Some code \<Rightarrow>
          if code = [] then carrierMap
          else
            let chargeV = numOrZero (estimatedFreightCharge carrier);
                transit = intOrZero (daysInTransit carrier);
                carrierData =
                  (case map_of carrierMap code of
                     None \<Rightarrow>
                       \<lparr> cdShipVia = orElse (optTrim (shipVia carrier)) code,
                         cdCarrierMode = orElse (optTrim (carrierMode carrier)) [],
                         cdDistributions = [] \<rparr>
                   | Some d \<Rightarrow> d);
                keep =
                  (case map_of (cdDistributions carrierData) branch of
                     None \<Rightarrow> False
                   | Some existing \<Rightarrow> \<not> chargeV < fst existing)
            in AList.update code
                 (if keep then carrierData
                  else carrierData
                         \<lparr> cdDistributions :=
                             AList.update branch (chargeV, transit)
                               (cdDistributions carrierData) \<rparr>)
                 carrierMap)"

text \<open>The outer loop: every distribution in turn, every carrier of it in turn.\<close>

definition addDistribution :: "CarrierMap \<Rightarrow> IngramDistribution \<Rightarrow> CarrierMap" where
  "addDistribution carrierMap dst =
     foldl (addCarrier (shipFromBranchNumber dst)) carrierMap (carriersOf dst)"

definition buildCarrierMap :: "IngramDistribution list \<Rightarrow> CarrierMap" where
  "buildCarrierMap dists = foldl addDistribution [] dists"

text \<open>\<open>distributionBranches.size\<close>: the number of different branch numbers.\<close>

definition totalDistributions :: "IngramDistribution list \<Rightarrow> nat" where
  "totalDistributions dists = length (remdups (map shipFromBranchNumber dists))"

text \<open>
  The second loop, for one entry of the carrier map: \<open>None\<close> when nothing is pushed.
\<close>

definition legOf :: "string \<times> (rat \<times> int) \<Rightarrow> RateLeg" where
  "legOf e = \<lparr> branchNumber = fst e, charge = fst (snd e), legDaysInTransit = snd (snd e) \<rparr>"

definition sumCharges :: "(string \<times> (rat \<times> int)) list \<Rightarrow> rat" where
  "sumCharges legs = foldl (\<lambda>totalChargeV e. jsAdd totalChargeV (fst (snd e))) 0 legs"

definition maxTransit :: "(string \<times> (rat \<times> int)) list \<Rightarrow> int" where
  "maxTransit legs = foldl (\<lambda>m e. max m (snd (snd e))) 0 legs"

definition buildRate :: "nat \<Rightarrow> string \<times> CarrierData \<Rightarrow> CombinedRate option" where
  "buildRate nDists e =
     (let code = fst e; data = snd e;
          complete = (length (cdDistributions data) = nDists);
          totalChargeV = sumCharges (cdDistributions data);
          maxDays = maxTransit (cdDistributions data)
      in if complete \<and> totalChargeV > 0
         then Some \<lparr> rateCarrierCode = code,
                     rateShipVia = cdShipVia data,
                     rateCarrierMode = cdCarrierMode data,
                     totalCharge = totalChargeV,
                     maxDaysInTransit = maxDays,
                     distributions = map legOf (cdDistributions data),
                     isComplete = complete \<rparr>
         else None)"

definition combineMulti :: "IngramDistribution list \<Rightarrow> CombinedRate list" where
  "combineMulti dists =
     sortByCharge
       (List.map_filter (buildRate (totalDistributions dists)) (buildCarrierMap dists))"

definition combineRates :: "IngramDistribution list \<Rightarrow> CombinedRate list" where
  "combineRates dists =
     (case dists of
        [] \<Rightarrow> []
      | [dst] \<Rightarrow> combineSingle dst
      | _ \<Rightarrow> combineMulti dists)"

subsection \<open>What the claims say about the combiner\<close>





text \<open>
  The quote with the lowest charge, the first of them where several charge the same;
  \<open>None\<close> when there is no quote.
\<close>

definition lowest :: "(rat \<times> int) list \<Rightarrow> (rat \<times> int) option" where
  "lowest qs = (if qs = [] then None else Some (arg_min_list fst qs))"







definition daysOfQuote :: "(rat \<times> int) option \<Rightarrow> int" where
  "daysOfQuote q = (case q of None \<Rightarrow> 0 | Some e \<Rightarrow> snd e)"








subsection \<open>Example inputs\<close>

text \<open>
  \<open>exPartial\<close> is the partial-coverage example of the specification; \<open>exDuplicate\<close>
  its example of a carrier listed twice in one distribution; in \<open>exZero\<close> a carrier is
  quoted at zero by every distribution and another with negative transit days; in
  \<open>exSameBranch\<close> two distributions carry the same branch number, and so in
  \<open>exNegative\<close>, where the charges of a carrier over the three distributions sum to
  less than zero; in \<open>exAbsorbed\<close> the charges are \<open>10^16\<close>, 1 and \<open>-10^16\<close>,
  and in \<open>exRounded\<close> they are \<open>10^16\<close>, 3, \<open>-10^16\<close> and -3.5.
\<close>

definition carrierEntry :: "string \<Rightarrow> rat \<Rightarrow> int \<Rightarrow> IngramCarrier" where
  "carrierEntry code c days =
     \<lparr> carrierCode = Some code, shipVia = Some code, carrierMode = None,
       estimatedFreightCharge = Some c, daysInTransit = Some days \<rparr>"








section \<open>TTL cache (ttl-cache.server.ts)\<close>

text \<open>
  The cache is the closure over \<open>ttlMs\<close>, \<open>maxEntries\<close> and the \<open>Map\<close> named
  \<open>store\<close>; an entry is the pair of its value and \<open>expiresAt\<close>. The store is an
  association list in insertion order: \<open>Map.prototype.set\<close> replaces the value of a key
  that is present where it stands and appends a new key (\<open>AList.update\<close>),
  \<open>Map.prototype.delete\<close> removes the key (\<open>AList.delete\<close>), and
  \<open>store.keys().next().value\<close> is the first key. \<open>Date.now()\<close> is the argument
  \<open>now\<close> of every operation. A result \<open>undefined\<close> of \<open>get\<close> is \<open>None\<close>.
  Both caches of the repository are keyed by strings, so \<open>oldestKey !== undefined\<close>
  holds whenever the store has a first key.
\<close>

record ('k, 'v) TtlCache =
  ttlMs :: int
  maxEntries :: int
  store :: "('k \<times> ('v \<times> int)) list"

definition createTtlCache :: "int \<Rightarrow> int option \<Rightarrow> ('k, 'v) TtlCache" where
  "createTtlCache ttl maxE =
     \<lparr> ttlMs = ttl, maxEntries = (case maxE of None \<Rightarrow> 500 | Some n \<Rightarrow> n), store = [] \<rparr>"

definition cacheGet :: "int \<Rightarrow> 'k \<Rightarrow> ('k, 'v) TtlCache \<Rightarrow> 'v option \<times> ('k, 'v) TtlCache" where
  "cacheGet now key c =
     (case map_of (store c) key of
        None \<Rightarrow> (None, c)
      | Some entry \<Rightarrow>
          if snd entry \<le> now then (None, c \<lparr> store := AList.delete key (store c) \<rparr>)
          else (Some (fst entry), c))"

definition cacheSet ::
  "int \<Rightarrow> 'k \<Rightarrow> 'v \<Rightarrow> int option \<Rightarrow> ('k, 'v) TtlCache \<Rightarrow> ('k, 'v) TtlCache" where
  "cacheSet now key v customTtlMs c =
     (let expiresAt = now + (case customTtlMs of None \<Rightarrow> ttlMs c | Some t \<Rightarrow> t);
          inserted = AList.update key (v, expiresAt) (store c)
      in if int (length inserted) > maxEntries c
         then (case inserted of
                 [] \<Rightarrow> c \<lparr> store := inserted \<rparr>
               | oldest # _ \<Rightarrow> c \<lparr> store := AList.delete (fst oldest) inserted \<rparr>)
         else c \<lparr> store := inserted \<rparr>)"

definition deleteKey :: "'k \<Rightarrow> ('k, 'v) TtlCache \<Rightarrow> ('k, 'v) TtlCache" where
  "deleteKey key c = c \<lparr> store := AList.delete key (store c) \<rparr>"

definition cacheSize :: "('k, 'v) TtlCache \<Rightarrow> nat" where
  "cacheSize c = length (store c)"

text \<open>The keys of the store in insertion order, oldest first.\<close>

definition cacheKeys :: "('k, 'v) TtlCache \<Rightarrow> 'k list" where
  "cacheKeys c = map fst (store c)"

text \<open>
  Example: a cache of two entries at most; \<open>a\<close> is set, then \<open>b\<close>, then \<open>a\<close> again;
  then \<open>c\<close> is set.
\<close>

definition exCacheAB :: "(string, nat) TtlCache" where
  "exCacheAB = cacheSet 1 ''b'' 2 None (cacheSet 0 ''a'' 1 None (createTtlCache 1000 (Some 2)))"

definition exCacheABA :: "(string, nat) TtlCache" where
  "exCacheABA = cacheSet 2 ''a'' 3 None exCacheAB"

definition exCacheABAC :: "(string, nat) TtlCache" where
  "exCacheABAC = cacheSet 3 ''c'' 4 None exCacheABA"

section \<open>Freight requests (ingram.server.ts)\<close>

subsection \<open>More of the JavaScript library\<close>

text \<open>
  \<open>toLowerCase\<close> and \<open>toUpperCase\<close> act on the letters of ASCII; the model's strings
  stand for ASCII text and other characters are left as they are.
  \<open>Array.prototype.join\<close> puts the separator between the elements.
\<close>

definition lowerChar :: "char \<Rightarrow> char" where
  "lowerChar c =
     (let n = (of_char c :: nat) in if 65 \<le> n \<and> n \<le> 90 then char_of (n + 32) else c)"

definition upperChar :: "char \<Rightarrow> char" where
  "upperChar c =
     (let n = (of_char c :: nat) in if 97 \<le> n \<and> n \<le> 122 then char_of (n - 32) else c)"

definition toLowerCase :: "string \<Rightarrow> string" where
  "toLowerCase s = map lowerChar s"

definition toUpperCase :: "string \<Rightarrow> string" where
  "toUpperCase s = map upperChar s"

fun join :: "string \<Rightarrow> string list \<Rightarrow> string" where
  "join sep [] = []"
| "join sep [x] = x"
| "join sep (x # y # ys) = x @ sep @ join sep (y # ys)"

text \<open>
  \<open>Number.prototype.toString\<close>: a non-negative integer below \<open>10^21\<close> is printed in
  decimal digits. The printing of every other number (fractions, exponent notation,
  negative values) is a parameter \<open>fmt\<close> of the functions that print numbers.
\<close>

fun digitsOf :: "nat \<Rightarrow> string" where
  "digitsOf n =
     (if n < 10 then [char_of (48 + n)]
      else digitsOf (n div 10) @ [char_of (48 + n mod 10)])"

declare digitsOf.simps [simp del]

definition numberToString :: "(rat \<Rightarrow> string) \<Rightarrow> rat \<Rightarrow> string" where
  "numberToString fmt x =
     (if of_int \<lfloor>x\<rfloor> = x \<and> 0 \<le> x \<and> x < 10 ^ 21 then digitsOf (nat \<lfloor>x\<rfloor>) else fmt x)"

text \<open>
  \<open>normalizeString\<close> of a value of unknown type: a string is trimmed, null and undefined
  (\<open>None\<close>) give the empty string; a value of another type stands here as the string
  \<open>String(value)\<close>.
\<close>

definition normalizeString :: "string option \<Rightarrow> string" where
  "normalizeString v = (case v of Some s \<Rightarrow> trim s | None \<Rightarrow> [])"

text \<open>\<open>a || b\<close> on strings.\<close>

definition orStr :: "string \<Rightarrow> string \<Rightarrow> string" where
  "orStr a b = (if a = [] then b else a)"

subsection \<open>The cache key of a freight request\<close>

text \<open>
  A line item is read through four loosely typed fields and its quantity. The field
  \<open>lineQuantity\<close> is the value of \<open>Number(line.quantity ?? 1)\<close>, \<open>None\<close> when that is
  \<open>NaN\<close> or infinite.
\<close>

record Address =
  companyName :: string
  addressLine1 :: string
  addressLine2 :: "string option"
  city :: string
  state :: string
  postalCode :: string
  countryCode :: string

record FreightLine =
  lineIngramPartNumber :: "string option"
  lineItemNumber :: "string option"
  lineCustomerLineNumber :: "string option"
  lineSku :: "string option"
  lineQuantity :: "rat option"

record RateTestInput =
  shipToAddress :: Address
  lines :: "FreightLine list option"
  billToAddressId :: "string option"
  shipToAddressId :: "string option"

definition lineToken :: "(rat \<Rightarrow> string) \<Rightarrow> FreightLine \<Rightarrow> string" where
  "lineToken fmt line =
     (let partNumber =
            orStr (normalizeString (lineIngramPartNumber line))
              (orStr (normalizeString (lineItemNumber line))
                 (orStr (normalizeString (lineCustomerLineNumber line))
                    (normalizeString (lineSku line))));
          qty = (case lineQuantity line of
                   None \<Rightarrow> 1
                 | Some qtyRaw \<Rightarrow> if qtyRaw > 0 then qtyRaw else 1)
      in if partNumber = [] then [] else partNumber @ '':'' @ numberToString fmt qty)"

definition destinationKey :: "string \<Rightarrow> Address \<Rightarrow> string" where
  "destinationKey shopDomain address =
     join ''|''
       [toLowerCase shopDomain,
        toUpperCase (normalizeString (Some (countryCode address))),
        toUpperCase (normalizeString (Some (state address))),
        normalizeString (Some (postalCode address)),
        toLowerCase (normalizeString (Some (city address))),
        toLowerCase (normalizeString (Some (addressLine1 address)))]"

definition lineKey :: "(rat \<Rightarrow> string) \<Rightarrow> FreightLine list option \<Rightarrow> string" where
  "lineKey fmt ls =
     join ''|''
       (sort (filter (\<lambda>t. t \<noteq> [])
          (map (lineToken fmt) (case ls of None \<Rightarrow> [] | Some xs \<Rightarrow> xs))))"

definition buildFreightCacheKey :: "(rat \<Rightarrow> string) \<Rightarrow> string \<Rightarrow> RateTestInput \<Rightarrow> string" where
  "buildFreightCacheKey fmt shopDomain payload =
     join ''|''
       [destinationKey shopDomain (shipToAddress payload),
        normalizeString (billToAddressId payload),
        normalizeString (shipToAddressId payload),
        lineKey fmt (lines payload)]"

text \<open>Example: a request of two lines, and the same lines in the other order.\<close>

definition exLine1 :: FreightLine where
  "exLine1 = \<lparr> lineIngramPartNumber = Some ''AB123'', lineItemNumber = None,
               lineCustomerLineNumber = Some ''001'', lineSku = None, lineQuantity = Some 2 \<rparr>"

definition exLine2 :: FreightLine where
  "exLine2 = \<lparr> lineIngramPartNumber = None, lineItemNumber = None,
               lineCustomerLineNumber = Some ''002'', lineSku = Some ''X-9'',
               lineQuantity = None \<rparr>"

definition exPayload :: RateTestInput where
  "exPayload =
     \<lparr> shipToAddress =
         \<lparr> companyName = ''Customer'', addressLine1 = ''1 Main St'', addressLine2 = None,
           city = ''Austin'', state = ''tx'', postalCode = ''78701'', countryCode = ''us'' \<rparr>,
       lines = Some [exLine1, exLine2],
       billToAddressId = None,
       shipToAddressId = Some ''200'' \<rparr>"

section \<open>Formatting a combined rate (rate-combiner.server.ts)\<close>

subsection \<open>Display name and transit wording\<close>

text \<open>
  \<open>String.prototype.replace\<close> with a global regular expression that is a fixed word:
  every occurrence, left to right, without overlap.
\<close>

function replaceAll :: "string \<Rightarrow> string \<Rightarrow> string \<Rightarrow> string" where
  "replaceAll pat rep s =
     (if s = [] \<or> pat = [] then s
      else if take (length pat) s = pat
      then rep @ replaceAll pat rep (drop (length pat) s)
      else hd s # replaceAll pat rep (tl s))"
  by pat_completeness auto
termination
  by (relation "measure (\<lambda>(pat, rep, s). length s)") (auto simp: neq_Nil_conv)

declare replaceAll.simps [simp del]

text \<open>\<open>/\s+/g\<close> to one space: every maximal run of white space becomes a space.\<close>

function collapseSpaces :: "string \<Rightarrow> string" where
  "collapseSpaces s =
     (if s = [] then []
      else if isWhiteSpace (hd s) then CHR '' '' # collapseSpaces (dropWhile isWhiteSpace (tl s))
      else hd s # collapseSpaces (tl s))"
  by pat_completeness auto
termination
  by (relation "measure length")
    (auto simp: neq_Nil_conv less_Suc_eq_le length_dropWhile_le)

declare collapseSpaces.simps [simp del]

text \<open>
  \<open>/EXPRES\b/g\<close>: the word \<open>EXPRES\<close> where no word character (letter, digit or
  underscore) follows it.
\<close>

definition isWordChar :: "char \<Rightarrow> bool" where
  "isWordChar c =
     (let n = (of_char c :: nat)
      in (48 \<le> n \<and> n \<le> 57) \<or> (65 \<le> n \<and> n \<le> 90) \<or> (97 \<le> n \<and> n \<le> 122) \<or> n = 95)"

function replaceExpres :: "string \<Rightarrow> string" where
  "replaceExpres s =
     (if s = [] then []
      else if take 6 s = ''EXPRES'' \<and> (drop 6 s = [] \<or> \<not> isWordChar (hd (drop 6 s)))
      then ''Express'' @ replaceExpres (drop 6 s)
      else hd s # replaceExpres (tl s))"
  by pat_completeness auto
termination
  by (relation "measure length") (auto simp: neq_Nil_conv)

declare replaceExpres.simps [simp del]

definition getCarrierDisplayName :: "string option \<Rightarrow> string option \<Rightarrow> string" where
  "getCarrierDisplayName shipViaV carrierCodeV =
     (let name = orElse (optTrim shipViaV) (orElse (optTrim carrierCodeV) ''Standard Shipping'')
      in trim
           (replaceAll ''AIR SAT'' ''Saturday''
           (replaceAll ''PRTY 1'' ''Priority''
           (replaceAll ''STD OVR'' ''Standard Overnight''
           (replaceAll ''2DAY INT'' ''2-Day''
           (replaceAll ''NXT DAY'' ''Next Day''
           (replaceExpres
           (replaceAll ''OVERNITE'' ''Overnight''
           (replaceAll ''FEDX'' ''FedEx''
           (collapseSpaces name))))))))))"

definition getTransitDescription :: "(rat \<Rightarrow> string) \<Rightarrow> int \<Rightarrow> string" where
  "getTransitDescription fmt days =
     (if days \<le> 0 then []
      else if days = 1 then ''Next business day''
      else if days = 2 then ''2 business days''
      else if days = 3 then ''3 business days''
      else numberToString fmt (of_int days) @ '' business days'')"

subsection \<open>formatRateForShopify\<close>

record ShopifyRate =
  service_name :: string
  service_code :: string
  total_price :: string
  currency :: string
  description :: string

text \<open>
  The separator of the description is a space, the bullet U+2022 and a space; the bullet
  is written as the three bytes of its UTF-8 encoding. \<open>currency\<close> defaults to USD when
  it is not passed.
\<close>

definition bulletSeparator :: string where
  "bulletSeparator = [CHR '' '', char_of (226 :: nat), char_of (128 :: nat), char_of (162 :: nat), CHR '' '']"

definition formatRateForShopify ::
  "(rat \<Rightarrow> string) \<Rightarrow> CombinedRate \<Rightarrow> string option \<Rightarrow> string option \<Rightarrow> ShopifyRate" where
  "formatRateForShopify fmt rate currencyV customDisplayName =
     (let displayName =
            orElse customDisplayName
              (getCarrierDisplayName (Some (rateShipVia rate)) (Some (rateCarrierCode rate)));
          transitDesc = getTransitDescription fmt (maxDaysInTransit rate);
          descParts =
            (if transitDesc \<noteq> [] then [transitDesc] else []) @
            (if length (distributions rate) > 1
             then [''Ships from '' @ numberToString fmt (of_nat (length (distributions rate)))
                     @ '' locations'']
             else [])
      in \<lparr> service_name = displayName,
           service_code = ''INGRAM_'' @ rateCarrierCode rate,
           total_price =
             numberToString fmt (of_int (max 0 (mathRound (jsMul (totalCharge rate) 100)))),
           currency = (case currencyV of None \<Rightarrow> ''USD'' | Some c \<Rightarrow> c),
           description = orStr (join bulletSeparator descParts) ''Ingram Micro freight'' \<rparr>)"


subsection \<open>requestFreightEstimate: result cache and in-flight map\<close>

text \<open>
  The module state is the result cache and the \<open>Map\<close> of in-flight requests, from cache
  key to the promise of the upstream call; promises are handles of a type \<open>'p\<close>. A
  rejected promise or a thrown error is the left summand of a result.
\<close>

datatype UpstreamError =
    IngramError string "nat option"
  | Rejected string

record 'r CachedFreight =
  ingramCorrelationId :: string
  cachedResponse :: 'r

record 'r FreightResult =
  correlationId :: string
  response :: 'r
  cacheHit :: bool

record ('r, 'p) FreightState =
  freightEstimateCache :: "(string, 'r CachedFreight) TtlCache"
  inflightFreightRequests :: "(string \<times> 'p) list"

definition FREIGHT_CACHE_TTL_MS :: int where
  "FREIGHT_CACHE_TTL_MS = 2 * 60 * 1000"

definition FREIGHT_CACHE_MAX_ENTRIES :: int where
  "FREIGHT_CACHE_MAX_ENTRIES = 200"

definition initialFreightState :: "('r, 'p) FreightState" where
  "initialFreightState =
     \<lparr> freightEstimateCache = createTtlCache FREIGHT_CACHE_TTL_MS (Some FREIGHT_CACHE_MAX_ENTRIES),
       inflightFreightRequests = [] \<rparr>"

text \<open>
  The upstream call, the body of the immediately invoked async function: what the
  collaborators answer is the record \<open>Upstream\<close> (the stored credentials with their
  contact email, the access token, the fresh correlation id, and the HTTP answer as
  \<open>response.ok\<close>, status and parsed body); \<open>opts\<close> may bring credentials and a token.
\<close>

record 'r Upstream =
  upCredentials :: "UpstreamError + string option option"
  upAccessToken :: "UpstreamError + string"
  upCorrelationId :: string
  upFetch :: "UpstreamError + (bool \<times> nat \<times> 'r)"

definition freightCall ::
  "string option option \<Rightarrow> string option \<Rightarrow> 'r Upstream \<Rightarrow> UpstreamError + (string \<times> 'r)" where
  "freightCall optsCredentials optsAccessToken up =
     (case (case optsCredentials of
              Some contact \<Rightarrow> Inr contact
            | None \<Rightarrow>
                (case upCredentials up of
                   Inl e \<Rightarrow> Inl e
                 | Inr None \<Rightarrow>
                     Inl (IngramError ''No Ingram Micro credentials configured for shop.'' None)
                 | Inr (Some contact) \<Rightarrow> Inr contact)) of
        Inl e \<Rightarrow> Inl e
      | Inr contactEmail \<Rightarrow>
          if orElse contactEmail [] = []
          then Inl (IngramError
                 ''Missing contact email. Update the credentials form before testing rates.'' None)
          else
            (case (case optsAccessToken of Some t \<Rightarrow> Inr t | None \<Rightarrow> upAccessToken up) of
               Inl e \<Rightarrow> Inl e
             | Inr token \<Rightarrow>
                 (case upFetch up of
                    Inl e \<Rightarrow> Inl e
                  | Inr (ok, status, json) \<Rightarrow>
                      if \<not> ok then Inl (IngramError ''Failed to fetch freight estimate'' (Some status))
                      else Inr (upCorrelationId up, json))))"

text \<open>
  A call of requestFreightEstimate runs in three steps, with other code of the process
  between them. \<open>requestEnter\<close> is the part before \<open>await requestPromise\<close>: the cache
  look-up, the in-flight look-up and the registration of the new promise.
\<close>

datatype ('r, 'p) Entered =
    CacheHit "'r FreightResult"
  | Joined 'p
  | Started 'p

definition requestEnter ::
  "int \<Rightarrow> string \<Rightarrow> 'p \<Rightarrow> ('r, 'p) FreightState \<Rightarrow> ('r, 'p) Entered \<times> ('r, 'p) FreightState" where
  "requestEnter now cacheKey requestPromise st =
     (let looked = cacheGet now cacheKey (freightEstimateCache st);
          st1 = st \<lparr> freightEstimateCache := snd looked \<rparr>
      in case fst looked of
           Some cached \<Rightarrow>
             (CacheHit \<lparr> correlationId = ingramCorrelationId cached,
                          response = cachedResponse cached, cacheHit = True \<rparr>, st1)
         | None \<Rightarrow>
             (case map_of (inflightFreightRequests st1) cacheKey of
                Some inflight \<Rightarrow> (Joined inflight, st1)
              | None \<Rightarrow>
                  (Started requestPromise,
                   st1 \<lparr> inflightFreightRequests :=
                           AList.update cacheKey requestPromise (inflightFreightRequests st1) \<rparr>)))"

text \<open>
  \<open>requestResolve\<close> is the end of the upstream call: a success is stored in the result
  cache, a failure changes nothing. \<open>requestFinally\<close> is the \<open>finally\<close> clause of the
  caller that started the call, and \<open>requestSettle\<close> is the two in a row: what the call
  returns or throws, and the state it leaves.
\<close>

definition requestResolve ::
  "int \<Rightarrow> string \<Rightarrow> UpstreamError + (string \<times> 'r) \<Rightarrow> ('r, 'p) FreightState
     \<Rightarrow> ('r, 'p) FreightState" where
  "requestResolve now cacheKey outcome st =
     (case outcome of
        Inl e \<Rightarrow> st
      | Inr (cid, json) \<Rightarrow>
          st \<lparr> freightEstimateCache :=
                 cacheSet now cacheKey \<lparr> ingramCorrelationId = cid, cachedResponse = json \<rparr> None
                   (freightEstimateCache st) \<rparr>)"

definition requestFinally :: "string \<Rightarrow> ('r, 'p) FreightState \<Rightarrow> ('r, 'p) FreightState" where
  "requestFinally cacheKey st =
     st \<lparr> inflightFreightRequests := AList.delete cacheKey (inflightFreightRequests st) \<rparr>"

definition requestSettle ::
  "int \<Rightarrow> string \<Rightarrow> UpstreamError + (string \<times> 'r) \<Rightarrow> ('r, 'p) FreightState
     \<Rightarrow> (UpstreamError + 'r FreightResult) \<times> ('r, 'p) FreightState" where
  "requestSettle now cacheKey outcome st =
     ((case outcome of
         Inl e \<Rightarrow> Inl e
       | Inr (cid, json) \<Rightarrow> Inr \<lparr> correlationId = cid, response = json, cacheHit = False \<rparr>),
      requestFinally cacheKey (requestResolve now cacheKey outcome st))"

text \<open>Example: an upstream answer with status 500, for a shop whose credentials are stored.\<close>

definition exUpstreamFails :: "string Upstream" where
  "exUpstreamFails =
     \<lparr> upCredentials = Inr (Some (Some ''ops@example.com'')),
       upAccessToken = Inr ''token'',
       upCorrelationId = ''c-1'',
       upFetch = Inr (False, 500, ''{}'') \<rparr>"

definition exUpstreamOk :: "string Upstream" where
  "exUpstreamOk = exUpstreamFails \<lparr> upCorrelationId := ''c-2'', upFetch := Inr (True, 200, ''rates'') \<rparr>"

section \<open>SKU mapping resolver (getIngramMappingsForSkus)\<close>

text \<open>
  The resolver reads and writes the module's SKU cache, whose values are a mapping or
  \<open>null\<close> (here \<open>None\<close>, the negative entry). Rows of the local store and of the remote
  table are pairs of a SKU and a distributor part number. The collaborators are the record
  \<open>MappingWorld\<close>: \<open>findMany\<close> is \<open>prisma.productMapping.findMany\<close> for a shop and a
  list of SKUs (\<open>None\<close> when it throws), \<open>supabaseSelect\<close> the remote query (\<open>Inl\<close>
  its error). What the resolver does to the outside and every \<open>skuCache.set\<close> are logged
  as a list of effects, in the order in which they happen.
\<close>

record IngramSkuMapping =
  sku :: string
  ingramPartNumber :: string
  cost :: "rat option"
  availability :: "rat option"

type_synonym SkuCache = "(string, IngramSkuMapping option) TtlCache"

record MappingWorld =
  findMany :: "string \<Rightarrow> string list \<Rightarrow> (string \<times> string) list option"
  supabaseSelect :: "string list \<Rightarrow> string + (string \<times> string) list"

datatype MappingEffect =
    CacheWrite string "IngramSkuMapping option" "int option"
  | RemoteQuery "string list"
  | WriteThrough "(string \<times> string) list"

record MappingOutcome =
  mappings :: "string + IngramSkuMapping list"
  skuCacheAfter :: SkuCache
  effects :: "MappingEffect list"

definition SKU_CACHE_TTL_MS :: int where
  "SKU_CACHE_TTL_MS = 5 * 60 * 1000"

definition SKU_CACHE_NEGATIVE_TTL_MS :: int where
  "SKU_CACHE_NEGATIVE_TTL_MS = 60 * 1000"

definition initialSkuCache :: SkuCache where
  "initialSkuCache = createTtlCache SKU_CACHE_TTL_MS (Some 10000)"

definition skuCacheKey :: "string \<Rightarrow> string \<Rightarrow> string" where
  "skuCacheKey shopDomain s = shopDomain @ ''::'' @ s"

definition shaped :: "string \<times> string \<Rightarrow> IngramSkuMapping" where
  "shaped row = \<lparr> sku = fst row, ingramPartNumber = snd row, cost = None, availability = None \<rparr>"

text \<open>
  The SKUs are trimmed, the undefined and empty ones dropped, and the rest kept once each
  in the order of their first occurrence.
\<close>

definition normalizeSkus :: "string option list \<Rightarrow> string list" where
  "normalizeSkus skus =
     setInsertionOrder (filter (\<lambda>s. s \<noteq> []) (map (\<lambda>s. orElse (optTrim s) []) skus))"

text \<open>
  The first loop: every SKU is looked up in the cache at time \<open>now\<close>. The state of the
  loop is the triple of \<open>cachedResults\<close>, \<open>skusToQuery\<close> and the cache.
\<close>

definition cacheLookupStep ::
  "string \<Rightarrow> int \<Rightarrow> IngramSkuMapping list \<times> string list \<times> SkuCache \<Rightarrow> string
     \<Rightarrow> IngramSkuMapping list \<times> string list \<times> SkuCache" where
  "cacheLookupStep shopDomain now acc s =
     (let cachedResults = fst acc; skusToQuery = fst (snd acc);
          looked = cacheGet now (skuCacheKey shopDomain s) (snd (snd acc))
      in case fst looked of
           Some cached \<Rightarrow>
             (case cached of
                Some m \<Rightarrow> (cachedResults @ [m], skusToQuery, snd looked)
              | None \<Rightarrow> (cachedResults, skusToQuery, snd looked))
         | None \<Rightarrow> (cachedResults, skusToQuery @ [s], snd looked))"

definition cacheStage ::
  "string \<Rightarrow> int \<Rightarrow> string list \<Rightarrow> SkuCache \<Rightarrow> IngramSkuMapping list \<times> string list \<times> SkuCache" where
  "cacheStage shopDomain now normalizedSkus c =
     foldl (cacheLookupStep shopDomain now) ([], [], c) normalizedSkus"

text \<open>\<open>skuCache.set\<close>: the write to the cache, logged.\<close>

definition skuCacheSet ::
  "int \<Rightarrow> string \<Rightarrow> IngramSkuMapping option \<Rightarrow> int option \<Rightarrow> SkuCache \<times> MappingEffect list
     \<Rightarrow> SkuCache \<times> MappingEffect list" where
  "skuCacheSet now key v customTtlMs w =
     (cacheSet now key v customTtlMs (fst w), snd w @ [CacheWrite key v customTtlMs])"

text \<open>
  The local store: its rows (none when it throws), and the loop that stores them as
  positive entries with the TTL of the cache.
\<close>

definition localRows :: "MappingWorld \<Rightarrow> string \<Rightarrow> string list \<Rightarrow> (string \<times> string) list" where
  "localRows world shopDomain skusToQuery =
     (case findMany world shopDomain skusToQuery of None \<Rightarrow> [] | Some rows \<Rightarrow> rows)"

definition cacheAfterLocal ::
  "string \<Rightarrow> int \<Rightarrow> (string \<times> string) list \<Rightarrow> SkuCache \<times> MappingEffect list
     \<Rightarrow> SkuCache \<times> MappingEffect list" where
  "cacheAfterLocal shopDomain now dbMappings w =
     foldl (\<lambda>w row. skuCacheSet now (skuCacheKey shopDomain (fst row)) (Some (shaped row)) None w)
       w dbMappings"

text \<open>The loop of the branch without remote fallback: a negative entry for every miss.\<close>

definition cacheNegatives ::
  "string \<Rightarrow> int \<Rightarrow> string list \<Rightarrow> SkuCache \<times> MappingEffect list
     \<Rightarrow> SkuCache \<times> MappingEffect list" where
  "cacheNegatives shopDomain now missingSkus w =
     foldl (\<lambda>w s. skuCacheSet now (skuCacheKey shopDomain s) None (Some SKU_CACHE_NEGATIVE_TTL_MS) w)
       w missingSkus"

text \<open>
  The loop after the remote query: \<open>fetchedBySku\<close> is a \<open>Map\<close> built from the rows, in
  which a later row of the same SKU replaces an earlier one.
\<close>

definition cacheFetchedStep ::
  "string \<Rightarrow> int \<Rightarrow> (string \<times> string) list
     \<Rightarrow> IngramSkuMapping list \<times> SkuCache \<times> MappingEffect list \<Rightarrow> string
     \<Rightarrow> IngramSkuMapping list \<times> SkuCache \<times> MappingEffect list" where
  "cacheFetchedStep shopDomain now fetched acc s =
     (case map_of (rev fetched) s of
        None \<Rightarrow>
          (fst acc,
           skuCacheSet now (skuCacheKey shopDomain s) None (Some SKU_CACHE_NEGATIVE_TTL_MS) (snd acc))
      | Some part \<Rightarrow>
          (fst acc @ [shaped (s, part)],
           skuCacheSet now (skuCacheKey shopDomain s) (Some (shaped (s, part)))
             (Some SKU_CACHE_TTL_MS) (snd acc)))"

text \<open>
  \<open>now0\<close>, \<open>now1\<close> and \<open>now2\<close> are the times of the cache look-ups, of the writes after
  the local store has answered, and of the writes after the remote query. The option
  \<open>allowSupabaseFallback\<close> is \<open>None\<close> when it is not passed; only an explicit
  \<open>false\<close> turns the fallback off.
\<close>

definition getIngramMappingsForSkus ::
  "MappingWorld \<Rightarrow> int \<Rightarrow> int \<Rightarrow> int \<Rightarrow> string \<Rightarrow> string option list \<Rightarrow> bool option \<Rightarrow> SkuCache
     \<Rightarrow> MappingOutcome" where
  "getIngramMappingsForSkus world now0 now1 now2 shopDomain skus allowSupabaseFallback c =
     (if skus = [] then \<lparr> mappings = Inr [], skuCacheAfter = c, effects = [] \<rparr>
      else
        let staged = cacheStage shopDomain now0 (normalizeSkus skus) c;
            cachedResults = fst staged;
            skusToQuery = fst (snd staged);
            c0 = snd (snd staged)
        in if skusToQuery = []
           then \<lparr> mappings = Inr cachedResults, skuCacheAfter = c0, effects = [] \<rparr>
           else
             let prismaAvailable = (findMany world shopDomain skusToQuery \<noteq> None);
                 dbMappings = localRows world shopDomain skusToQuery;
                 w1 = cacheAfterLocal shopDomain now1 dbMappings (c0, []);
                 results1 = cachedResults @ map shaped dbMappings;
                 missingSkus = filter (\<lambda>s. s \<notin> fst ` set dbMappings) skusToQuery
             in if missingSkus = []
                then \<lparr> mappings = Inr results1, skuCacheAfter = fst w1, effects = snd w1 \<rparr>
                else if allowSupabaseFallback = Some False
                then
                  let w2 = cacheNegatives shopDomain now1 missingSkus w1
                  in \<lparr> mappings = Inr results1, skuCacheAfter = fst w2, effects = snd w2 \<rparr>
                else
                  (case supabaseSelect world missingSkus of
                     Inl err \<Rightarrow>
                       \<lparr> mappings = Inl ''Unable to retrieve SKU mappings from Supabase'',
                         skuCacheAfter = fst w1,
                         effects = snd w1 @ [RemoteQuery missingSkus] \<rparr>
                   | Inr fetched \<Rightarrow>
                       let final = foldl (cacheFetchedStep shopDomain now2 fetched)
                                     (results1, fst w1,
                                      snd w1 @ RemoteQuery missingSkus #
                                        (if fetched \<noteq> [] \<and> prismaAvailable
                                         then [WriteThrough fetched] else []))
                                     missingSkus
                       in \<lparr> mappings = Inr (fst final), skuCacheAfter = fst (snd final),
                            effects = snd (snd final) \<rparr>))"

text \<open>
  The words of the specification, on the cache as the call finds it. A key has a live entry
  at a time when the store holds it with a later expiry. The SKUs of a call that miss the
  cache are the trimmed, non-empty input SKUs (once each) whose key has no live entry; the
  hits of the cache are the mappings of the live positive entries; the local store is asked
  for the misses when there are any; and a SKU is unresolved after the cache and the local
  store when it missed the cache and no row of the local store has it.
\<close>

definition liveEntry :: "SkuCache \<Rightarrow> int \<Rightarrow> string \<Rightarrow> IngramSkuMapping option option" where
  "liveEntry c now key =
     (case map_of (store c) key of
        None \<Rightarrow> None
      | Some entry \<Rightarrow> if now < snd entry then Some (fst entry) else None)"

definition cacheMisses :: "int \<Rightarrow> string \<Rightarrow> string option list \<Rightarrow> SkuCache \<Rightarrow> string list" where
  "cacheMisses now0 shopDomain skus c =
     filter (\<lambda>s. liveEntry c now0 (skuCacheKey shopDomain s) = None) (normalizeSkus skus)"

definition cacheHits :: "int \<Rightarrow> string \<Rightarrow> string option list \<Rightarrow> SkuCache \<Rightarrow> IngramSkuMapping list" where
  "cacheHits now0 shopDomain skus c =
     List.map_filter
       (\<lambda>s. case liveEntry c now0 (skuCacheKey shopDomain s) of None \<Rightarrow> None | Some v \<Rightarrow> v)
       (normalizeSkus skus)"

definition askedRows ::
  "MappingWorld \<Rightarrow> int \<Rightarrow> string \<Rightarrow> string option list \<Rightarrow> SkuCache \<Rightarrow> (string \<times> string) list" where
  "askedRows world now0 shopDomain skus c =
     (if cacheMisses now0 shopDomain skus c = [] then []
      else (case findMany world shopDomain (cacheMisses now0 shopDomain skus c) of
              None \<Rightarrow> []
            | Some rows \<Rightarrow> rows))"

definition unresolvedSkus ::
  "MappingWorld \<Rightarrow> int \<Rightarrow> string \<Rightarrow> string option list \<Rightarrow> SkuCache \<Rightarrow> string list" where
  "unresolvedSkus world now0 shopDomain skus c =
     filter (\<lambda>s. s \<notin> fst ` set (askedRows world now0 shopDomain skus c))
       (cacheMisses now0 shopDomain skus c)"

text \<open>
  Two invariants of the module's cache. It is bounded: its keys are distinct and it holds
  no more than \<open>maxEntries\<close> entries; the empty cache is, and every call keeps it so. It
  is keyed by SKU: every positive entry stands under the key made of a shop domain without
  a colon, the separator \<open>::\<close> and the SKU of the mapping; the empty cache is, and every
  call for a shop domain without a colon keeps it so.
\<close>

definition skuCacheBounded :: "SkuCache \<Rightarrow> bool" where
  "skuCacheBounded c \<longleftrightarrow> distinct (cacheKeys c) \<and> int (cacheSize c) \<le> maxEntries c"

definition skuKeyed :: "string \<Rightarrow> IngramSkuMapping \<Rightarrow> bool" where
  "skuKeyed key m \<longleftrightarrow> key = takeWhile (\<lambda>ch. ch \<noteq> CHR '':'') key @ ''::'' @ sku m"

definition skuCacheKeyed :: "SkuCache \<Rightarrow> bool" where
  "skuCacheKeyed c \<longleftrightarrow>
     list_all (\<lambda>entry. case fst (snd entry) of None \<Rightarrow> True | Some m \<Rightarrow> skuKeyed (fst entry) m)
       (store c)"

text \<open>
  Example: a shop with one SKU in the local store; the cart asks for that one and for two
  that no store knows, one of them twice.
\<close>

definition exWorld :: MappingWorld where
  "exWorld =
     \<lparr> findMany = (\<lambda>shop skus. Some (filter (\<lambda>row. fst row \<in> set skus) [(''S1'', ''P1'')])),
       supabaseSelect = (\<lambda>skus. Inr [(''S2'', ''P2'')]) \<rparr>"

definition exSkus :: "string option list" where
  "exSkus = [Some ''S1'', Some '' S2'', Some ''S3'', Some ''S2'', None]"

definition exNoFallback :: MappingOutcome where
  "exNoFallback =
     getIngramMappingsForSkus exWorld 0 10 20 ''shop'' exSkus (Some False) initialSkuCache"

text \<open>
  Example: two calls on the module's cache. The first, with the fallback on, is for the
  shop domain \<open>a::b\<close> and the SKU \<open>c\<close>, which the remote table knows; the second, with
  the fallback off, is for the shop domain \<open>a\<close> and the SKUs \<open>b::c\<close> and \<open>c\<close>, of which
  the local store knows neither.
\<close>

definition exRemoteWorld :: MappingWorld where
  "exRemoteWorld =
     \<lparr> findMany = (\<lambda>shop skus. Some []),
       supabaseSelect = (\<lambda>skus. Inr (filter (\<lambda>row. fst row \<in> set skus) [(''c'', ''P'')])) \<rparr>"

definition exFirstCall :: MappingOutcome where
  "exFirstCall =
     getIngramMappingsForSkus exRemoteWorld 0 1 2 ''a::b'' [Some ''c''] None initialSkuCache"

definition exSecondCall :: MappingOutcome where
  "exSecondCall =
     getIngramMappingsForSkus exRemoteWorld 3 4 5 ''a'' [Some ''b::c'', Some ''c''] (Some False)
       (skuCacheAfter exFirstCall)"

text \<open>
  Example: one call, with the fallback off, on the empty cache of the module, for 10001
  SKUs that no store knows: \<open>x\<close>, \<open>xx\<close>, \<open>xxx\<close> and so on.
\<close>

definition exManySkus :: "string option list" where
  "exManySkus = map (\<lambda>n. Some (replicate (Suc n) (CHR ''x''))) [0..<10001]"

definition exManyCall :: MappingOutcome where
  "exManyCall =
     getIngramMappingsForSkus exRemoteWorld 0 1 2 ''a'' exManySkus (Some False) initialSkuCache"


section \<open>Cart estimate endpoint (api.cart-estimate.ts)\<close>

text \<open>
  The \<open>action\<close> of the route, as a function of what the request and the collaborators
  answer. A rejected promise or an exception inside the \<open>try\<close> block is the left
  summand \<open>Thrown\<close>; the \<open>catch\<close> clause turns it into a response. The parsed body has
  the type the route declares, with every field that the code tests for presence as an
  option.
\<close>

datatype Thrown = Thrown string

record CartAddress =
  cartCountry :: "string option"
  cartProvince :: "string option"
  cartCity :: "string option"
  cartZip :: "string option"

record CartItem =
  itemSku :: "string option"
  itemQuantity :: "rat option"
  itemGrams :: "rat option"

record CartEstimateRequest =
  reqShop :: "string option"
  reqAddress :: "CartAddress option"
  reqItems :: "CartItem list option"

record CartRate =
  rateName :: string
  rateCode :: string
  ratePrice :: rat
  rateCurrency :: string
  rateDescription :: string

record CartEstimateResponse =
  success :: bool
  rates :: "CartRate list option"
  error :: "string option"

record HttpResponse =
  status :: nat
  body :: "CartEstimateResponse option"

record FreightSummary =
  currencyCode :: "string option"
  distribution :: "IngramDistribution list option"

text \<open>
  The collaborators: \<open>request.json()\<close>, \<open>getCredentials\<close> (whether a record exists),
  \<open>getIngramMappingsForSkus\<close> with the remote fallback off, \<open>requestFreightEstimate\<close>
  (giving \<open>response.response?.freightEstimateResponse\<close>), and the three readers of the
  carrier configuration (a configuration is a carrier code with its display name).
  \<open>parseIntOf\<close> is \<open>parseInt(s, 10)\<close> and \<open>fmt\<close> the printing of the numbers that
  \<open>numberToString\<close> leaves open.
\<close>

record CartWorld =
  requestMethod :: string
  requestJson :: "Thrown + CartEstimateRequest"
  credentialsExist :: "string \<Rightarrow> Thrown + bool"
  mappingsForSkus :: "string \<Rightarrow> string list \<Rightarrow> Thrown + IngramSkuMapping list"
  freightEstimate :: "string \<Rightarrow> RateTestInput \<Rightarrow> Thrown + FreightSummary option"
  hasCarrierConfigurations :: "string \<Rightarrow> Thrown + bool"
  getEnabledCarrierCodes :: "string \<Rightarrow> Thrown + string list"
  getCarrierConfigurations :: "string \<Rightarrow> Thrown + (string \<times> string option) list"
  parseIntOf :: "string \<Rightarrow> rat"
  fmtNumber :: "rat \<Rightarrow> string"

definition failure :: "nat \<Rightarrow> string \<Rightarrow> HttpResponse" where
  "failure code msg =
     \<lparr> status = code, body = Some \<lparr> success = False, rates = None, error = Some msg \<rparr> \<rparr>"

definition preflight :: HttpResponse where
  "preflight = \<lparr> status = 204, body = None \<rparr>"

text \<open>\<open>String(index + 1).padStart(3, "0")\<close>\<close>

definition padStart3 :: "string \<Rightarrow> string" where
  "padStart3 s = replicate (3 - length s) (CHR ''0'') @ s"

text \<open>
  \<open>mappingArrayToRecord\<close> reduces the mappings into the plain object \<open>{}\<close> by
  \<open>acc[mapping.sku] = mapping\<close>. The assignment makes an own property, except under
  the name \<open>__proto__\<close>, where it calls the setter that \<open>Object.prototype\<close> provides
  and the mapping becomes the prototype of the object. The mapping objects that reach the
  function have the own properties of the type \<open>IngramSkuMapping\<close>, with \<open>cost\<close> and
  \<open>availability\<close> absent, undefined or null when they are \<open>None\<close>.
\<close>

record MappingRecord =
  ownProperties :: "(string \<times> IngramSkuMapping) list"
  prototypeOf :: "IngramSkuMapping option"

definition mappingArrayToRecord :: "IngramSkuMapping list \<Rightarrow> MappingRecord" where
  "mappingArrayToRecord ms =
     foldl (\<lambda>acc mapping.
              if sku mapping = ''__proto__'' then acc \<lparr> prototypeOf := Some mapping \<rparr>
              else acc \<lparr> ownProperties := AList.update (sku mapping) mapping (ownProperties acc) \<rparr>)
       \<lparr> ownProperties = [], prototypeOf = None \<rparr> ms"

text \<open>
  \<open>mappingRecord[key]\<close>. A name that is no own property is looked up along the prototype
  chain: in the mapping that was made the prototype, if any, and then in
  \<open>Object.prototype\<close>, whose properties are functions but for \<open>__proto__\<close>, the getter
  of the prototype. \<open>Builtin\<close> stands for the functions and for \<open>Object.prototype\<close>
  itself, none of which has a property \<open>ingramPartNumber\<close>.
\<close>

datatype JsValue =
    Undefined
  | MappingObject IngramSkuMapping
  | Text string
  | Number rat
  | Builtin

definition objectPrototypeNames :: "string list" where
  "objectPrototypeNames =
     [''constructor'', ''__defineGetter__'', ''__defineSetter__'', ''hasOwnProperty'',
      ''__lookupGetter__'', ''__lookupSetter__'', ''isPrototypeOf'', ''propertyIsEnumerable'',
      ''toString'', ''valueOf'', ''__proto__'', ''toLocaleString'']"

definition inheritedFromObject :: "string \<Rightarrow> JsValue" where
  "inheritedFromObject key = (if key \<in> set objectPrototypeNames then Builtin else Undefined)"

definition getProperty :: "MappingRecord \<Rightarrow> string \<Rightarrow> JsValue" where
  "getProperty mappingRecord key =
     (case map_of (ownProperties mappingRecord) key of
        Some mapping \<Rightarrow> MappingObject mapping
      | None \<Rightarrow>
          (case prototypeOf mappingRecord of
             None \<Rightarrow> inheritedFromObject key
           | Some p \<Rightarrow>
               if key = ''__proto__'' then MappingObject p
               else if key = ''sku'' then Text (sku p)
               else if key = ''ingramPartNumber'' then Text (ingramPartNumber p)
               else if key = ''cost''
               then (case cost p of None \<Rightarrow> Undefined | Some x \<Rightarrow> Number x)
               else if key = ''availability''
               then (case availability p of None \<Rightarrow> Undefined | Some x \<Rightarrow> Number x)
               else inheritedFromObject key))"

text \<open>The truth value of a value, as \<open>!\<close> takes it.\<close>

fun truthy :: "JsValue \<Rightarrow> bool" where
  "truthy Undefined = False"
| "truthy (MappingObject m) = True"
| "truthy (Text s) = (s \<noteq> [])"
| "truthy (Number x) = (x \<noteq> 0)"
| "truthy Builtin = True"

text \<open>
  \<open>mapping.ingramPartNumber\<close>: a TypeError on undefined and null, the part number of a
  mapping, and undefined (\<open>None\<close>) on every other value.
\<close>

fun partNumberOf :: "JsValue \<Rightarrow> Thrown + string option" where
  "partNumberOf Undefined = Inl (Thrown ''TypeError'')"
| "partNumberOf (MappingObject m) = Inr (Some (ingramPartNumber m))"
| "partNumberOf (Text s) = Inr None"
| "partNumberOf (Number x) = Inr None"
| "partNumberOf Builtin = Inr None"

text \<open>
  \<open>uniqueSkus\<close>, the SKUs that the handler takes to be without a mapping, and the lines
  of the freight request. A line reads \<open>mappingRecord[item.sku]\<close> with the SKU as the
  cart sent it (an undefined SKU is the key \<open>undefined\<close>).
\<close>

definition uniqueSkusOf :: "CartItem list \<Rightarrow> string list" where
  "uniqueSkusOf its = normalizeSkus (map itemSku its)"

definition missingSkusOf :: "IngramSkuMapping list \<Rightarrow> string list \<Rightarrow> string list" where
  "missingSkusOf ms uniqueSkus =
     filter (\<lambda>s. \<not> truthy (getProperty (mappingArrayToRecord ms) s)) uniqueSkus"

definition cartLine :: "MappingRecord \<Rightarrow> nat \<times> CartItem \<Rightarrow> Thrown + FreightLine" where
  "cartLine mappingRecord indexed =
     (case partNumberOf
             (getProperty mappingRecord
                (case itemSku (snd indexed) of None \<Rightarrow> ''undefined'' | Some s \<Rightarrow> s)) of
        Inl e \<Rightarrow> Inl e
      | Inr part \<Rightarrow>
          Inr \<lparr> lineIngramPartNumber = part,
                lineItemNumber = None,
                lineCustomerLineNumber = Some (padStart3 (digitsOf (fst indexed + 1))),
                lineSku = None,
                lineQuantity = itemQuantity (snd indexed) \<rparr>)"

fun cartLines :: "MappingRecord \<Rightarrow> (nat \<times> CartItem) list \<Rightarrow> Thrown + FreightLine list" where
  "cartLines mappingRecord [] = Inr []"
| "cartLines mappingRecord (x # xs) =
     (case cartLine mappingRecord x of
        Inl e \<Rightarrow> Inl e
      | Inr line \<Rightarrow>
          (case cartLines mappingRecord xs of
             Inl e \<Rightarrow> Inl e
           | Inr ls \<Rightarrow> Inr (line # ls)))"

definition cartShipTo :: "CartAddress \<Rightarrow> Address" where
  "cartShipTo a =
     \<lparr> companyName = ''Customer'',
       addressLine1 = orElse (cartCity a) ''Unknown'',
       addressLine2 = None,
       city = orElse (cartCity a) ''Unknown'',
       state = orElse (cartProvince a) (orElse (cartCountry a) []),
       postalCode = orElse (cartZip a) ''00000'',
       countryCode = orElse (cartCountry a) [] \<rparr>"

text \<open>The rates of the answer: formatted, sorted by price, the first five.\<close>

definition cartRate ::
  "CartWorld \<Rightarrow> string \<Rightarrow> (string \<times> string option) list \<Rightarrow> CombinedRate \<Rightarrow> CartRate" where
  "cartRate w currencyV carrierConfigs rate =
     (let displayName =
            (case map_of (rev carrierConfigs) (rateCarrierCode rate) of
               None \<Rightarrow> None
             | Some d \<Rightarrow> d);
          formatted = formatRateForShopify (fmtNumber w) rate (Some currencyV) displayName
      in \<lparr> rateName = service_name formatted,
           rateCode = service_code formatted,
           ratePrice = binary64 (parseIntOf w (total_price formatted) / 100),
           rateCurrency = currencyV,
           rateDescription = description formatted \<rparr>)"

definition cartRates ::
  "CartWorld \<Rightarrow> string \<Rightarrow> (string \<times> string option) list \<Rightarrow> CombinedRate list \<Rightarrow> CartRate list" where
  "cartRates w currencyV carrierConfigs filteredRates =
     take 5 (sort_key ratePrice (map (cartRate w currencyV carrierConfigs) filteredRates))"

text \<open>The part of the handler after the freight estimate has arrived.\<close>

definition answerRates :: "CartWorld \<Rightarrow> string \<Rightarrow> FreightSummary option \<Rightarrow> Thrown + HttpResponse" where
  "answerRates w shopV summary =
     (let currencyV = orElse (case summary of None \<Rightarrow> None | Some f \<Rightarrow> currencyCode f) ''USD'';
          distributionsV =
            (case summary of
               None \<Rightarrow> []
             | Some f \<Rightarrow> (case distribution f of None \<Rightarrow> [] | Some ds \<Rightarrow> ds))
      in if distributionsV = []
         then Inr (failure 200 ''No shipping options available for this address'')
         else
           let combinedRates = combineRates distributionsV
           in if combinedRates = []
              then Inr (failure 200 ''No common shipping options available'')
              else
                (case hasCarrierConfigurations w shopV of
                   Inl e \<Rightarrow> Inl e
                 | Inr hasConfigs \<Rightarrow>
                     (case (if hasConfigs
                            then (case getEnabledCarrierCodes w shopV of
                                    Inl e \<Rightarrow> Inl e
                                  | Inr enabledCodes \<Rightarrow>
                                      Inr (filter (\<lambda>rate. rateCarrierCode rate \<in> set enabledCodes)
                                             combinedRates))
                            else Inr combinedRates) of
                        Inl e \<Rightarrow> Inl e
                      | Inr filteredRates \<Rightarrow>
                          (case getCarrierConfigurations w shopV of
                             Inl e \<Rightarrow> Inl e
                           | Inr carrierConfigs \<Rightarrow>
                               Inr \<lparr> status = 200,
                                     body = Some
                                       \<lparr> success = True,
                                         rates = Some (cartRates w currencyV carrierConfigs
                                                         filteredRates),
                                         error = None \<rparr> \<rparr>))))"

text \<open>The \<open>try\<close> block.\<close>

definition actionBody :: "CartWorld \<Rightarrow> Thrown + HttpResponse" where
  "actionBody w =
     (case requestJson w of
        Inl e \<Rightarrow> Inl e
      | Inr b \<Rightarrow>
          if orElse (reqShop b) [] = [] then Inr (failure 400 ''Missing shop domain'')
          else
            (case reqAddress b of
               None \<Rightarrow> Inr (failure 400 ''Missing address information'')
             | Some addressV \<Rightarrow>
                 if orElse (cartCountry addressV) [] = []
                 then Inr (failure 400 ''Missing address information'')
                 else
                   (case reqItems b of
                      None \<Rightarrow> Inr (failure 400 ''No items in cart'')
                    | Some itemsV \<Rightarrow>
                        if itemsV = [] then Inr (failure 400 ''No items in cart'')
                        else
                          (case credentialsExist w (orElse (reqShop b) []) of
                             Inl e \<Rightarrow> Inl e
                           | Inr credentials \<Rightarrow>
                               if \<not> credentials then Inr (failure 400 ''Shop not configured'')
                               else if uniqueSkusOf itemsV = []
                               then Inr (failure 400 ''No valid SKUs in cart'')
                               else
                                 (case mappingsForSkus w (orElse (reqShop b) [])
                                         (uniqueSkusOf itemsV) of
                                    Inl e \<Rightarrow> Inl e
                                  | Inr ms \<Rightarrow>
                                      if missingSkusOf ms (uniqueSkusOf itemsV) \<noteq> []
                                      then Inr (failure 200
                                             ''Some products are not available for shipping estimate'')
                                      else
                                        (case cartLines (mappingArrayToRecord ms)
                                                (enumerate 0 itemsV) of
                                           Inl e \<Rightarrow> Inl e
                                         | Inr ls \<Rightarrow>
                                             (case freightEstimate w (orElse (reqShop b) [])
                                                     \<lparr> shipToAddress = cartShipTo addressV,
                                                       lines = Some ls,
                                                       billToAddressId = None,
                                                       shipToAddressId = None \<rparr> of
                                                Inl e \<Rightarrow> Inl e
                                              | Inr summary \<Rightarrow>
                                                  answerRates w (orElse (reqShop b) [])
                                                    summary)))))))"

text \<open>The handler: the preflight answer, the \<open>try\<close> block, and the \<open>catch\<close> clause.\<close>

definition action :: "CartWorld \<Rightarrow> HttpResponse" where
  "action w =
     (if requestMethod w = ''OPTIONS'' then preflight
      else (case actionBody w of
              Inl e \<Rightarrow> failure 200 ''Unable to calculate shipping estimate''
            | Inr r \<Rightarrow> r))"

text \<open>
  The outcomes of the specification as conditions on the request and the collaborators.
  A request with the parsed body \<open>b\<close>, the address \<open>a\<close> and the items \<open>its\<close> is
  \<open>accepted\<close> when it passes the checks that answer 400; it has a \<open>mappingGap\<close> when
  some SKU of the cart is the SKU of none of the mappings that the resolver returns; it
  has \<open>noUsableRates\<close> when the freight estimate arrives with no distribution or with no
  carrier that combineRates keeps; \<open>internalError\<close> is an exception anywhere in the
  \<open>try\<close> block.
\<close>

definition accepted :: "CartWorld \<Rightarrow> CartEstimateRequest \<Rightarrow> CartAddress \<Rightarrow> CartItem list \<Rightarrow> bool" where
  "accepted w b a its \<longleftrightarrow>
     requestMethod w \<noteq> ''OPTIONS'' \<and> requestJson w = Inr b \<and>
     orElse (reqShop b) [] \<noteq> [] \<and>
     reqAddress b = Some a \<and> orElse (cartCountry a) [] \<noteq> [] \<and>
     reqItems b = Some its \<and> its \<noteq> [] \<and>
     credentialsExist w (orElse (reqShop b) []) = Inr True \<and>
     uniqueSkusOf its \<noteq> []"

definition unmappedSkus :: "IngramSkuMapping list \<Rightarrow> string list \<Rightarrow> string list" where
  "unmappedSkus ms uniqueSkus = filter (\<lambda>s. s \<notin> sku ` set ms) uniqueSkus"

definition mappingGap :: "CartWorld \<Rightarrow> CartEstimateRequest \<Rightarrow> CartAddress \<Rightarrow> CartItem list \<Rightarrow> bool" where
  "mappingGap w b a its \<longleftrightarrow>
     accepted w b a its \<and>
     (case mappingsForSkus w (orElse (reqShop b) []) (uniqueSkusOf its) of
        Inl e \<Rightarrow> False
      | Inr ms \<Rightarrow> unmappedSkus ms (uniqueSkusOf its) \<noteq> [])"

definition estimateOf ::
  "CartWorld \<Rightarrow> CartEstimateRequest \<Rightarrow> CartAddress \<Rightarrow> CartItem list
     \<Rightarrow> (Thrown + FreightSummary option) option" where
  "estimateOf w b a its =
     (case mappingsForSkus w (orElse (reqShop b) []) (uniqueSkusOf its) of
        Inl e \<Rightarrow> None
      | Inr ms \<Rightarrow>
          if missingSkusOf ms (uniqueSkusOf its) \<noteq> [] then None
          else (case cartLines (mappingArrayToRecord ms) (enumerate 0 its) of
                  Inl e \<Rightarrow> None
                | Inr ls \<Rightarrow>
                    Some (freightEstimate w (orElse (reqShop b) [])
                            \<lparr> shipToAddress = cartShipTo a,
                              lines = Some ls,
                              billToAddressId = None,
                              shipToAddressId = None \<rparr>)))"

definition distributionsOf :: "FreightSummary option \<Rightarrow> IngramDistribution list" where
  "distributionsOf summary =
     (case summary of
        None \<Rightarrow> []
      | Some f \<Rightarrow> (case distribution f of None \<Rightarrow> [] | Some ds \<Rightarrow> ds))"

definition noUsableRates :: "CartWorld \<Rightarrow> CartEstimateRequest \<Rightarrow> CartAddress \<Rightarrow> CartItem list \<Rightarrow> bool" where
  "noUsableRates w b a its \<longleftrightarrow>
     accepted w b a its \<and>
     (case estimateOf w b a its of
        Some (Inr summary) \<Rightarrow>
          distributionsOf summary = [] \<or> combineRates (distributionsOf summary) = []
      | _ \<Rightarrow> False)"

definition internalError :: "CartWorld \<Rightarrow> bool" where
  "internalError w \<longleftrightarrow>
     requestMethod w \<noteq> ''OPTIONS'' \<and> (case actionBody w of Inl e \<Rightarrow> True | Inr r \<Rightarrow> False)"

definition safeAnswer :: "HttpResponse \<Rightarrow> bool" where
  "safeAnswer r \<longleftrightarrow>
     status r = 200 \<and>
     (case body r of
        None \<Rightarrow> False
      | Some b \<Rightarrow> \<not> success b \<and> rates b = None \<and> error b \<noteq> None)"

text \<open>
  Example: a cart of one item for a configured shop. In \<open>exCartGap\<close> the SKU has no
  mapping; in \<open>exCartNoRates\<close> it has one and the two distributions of the estimate share
  no carrier; in \<open>exCartThrows\<close> the freight estimate fails; in \<open>exCartBadJson\<close> the
  body does not parse.
\<close>

definition exCartAddress :: CartAddress where
  "exCartAddress =
     \<lparr> cartCountry = Some ''US'', cartProvince = Some ''TX'',
       cartCity = Some ''Austin'', cartZip = Some ''78701'' \<rparr>"

definition exCartItems :: "CartItem list" where
  "exCartItems = [\<lparr> itemSku = Some ''S1'', itemQuantity = Some 2, itemGrams = None \<rparr>]"

definition exCartRequest :: CartEstimateRequest where
  "exCartRequest =
     \<lparr> reqShop = Some ''shop.example.com'',
       reqAddress = Some exCartAddress,
       reqItems = Some exCartItems \<rparr>"

definition exCartGap :: CartWorld where
  "exCartGap =
     \<lparr> requestMethod = ''POST'',
       requestJson = Inr exCartRequest,
       credentialsExist = (\<lambda>shop. Inr True),
       mappingsForSkus = (\<lambda>shop skus. Inr []),
       freightEstimate = (\<lambda>shop payload. Inr None),
       hasCarrierConfigurations = (\<lambda>shop. Inr False),
       getEnabledCarrierCodes = (\<lambda>shop. Inr []),
       getCarrierConfigurations = (\<lambda>shop. Inr []),
       parseIntOf = (\<lambda>s. 0),
       fmtNumber = (\<lambda>x. []) \<rparr>"

definition exCartNoRates :: CartWorld where
  "exCartNoRates =
     exCartGap
       \<lparr> mappingsForSkus := (\<lambda>shop skus. Inr [shaped (''S1'', ''P1'')]),
         freightEstimate :=
           (\<lambda>shop payload. Inr (Some \<lparr> currencyCode = None,
              distribution = Some
                [\<lparr> shipFromBranchNumber = ''A'', carrierList = Some [carrierEntry ''UPS'' 10 2] \<rparr>,
                 \<lparr> shipFromBranchNumber = ''B'', carrierList = Some [carrierEntry ''FDX'' 8 3] \<rparr>] \<rparr>)) \<rparr>"

definition exCartThrows :: CartWorld where
  "exCartThrows =
     exCartNoRates \<lparr> freightEstimate := (\<lambda>shop payload. Inl (Thrown ''Failed to fetch freight estimate'')) \<rparr>"

definition exCartBadJson :: CartWorld where
  "exCartBadJson = exCartGap \<lparr> requestJson := Inl (Thrown ''SyntaxError'') \<rparr>"

text \<open>
  Example: a cart of two items, of which the resolver maps the first; the second has the
  SKU \<open>constructor\<close> and no mapping. The distributor prices the request.
\<close>

definition exCartInheritedItems :: "CartItem list" where
  "exCartInheritedItems =
     [\<lparr> itemSku = Some ''S1'', itemQuantity = Some 2, itemGrams = None \<rparr>,
      \<lparr> itemSku = Some ''constructor'', itemQuantity = Some 1, itemGrams = None \<rparr>]"

definition exCartInheritedRequest :: CartEstimateRequest where
  "exCartInheritedRequest = exCartRequest \<lparr> reqItems := Some exCartInheritedItems \<rparr>"

definition exCartInherited :: CartWorld where
  "exCartInherited =
     exCartGap
       \<lparr> requestJson := Inr exCartInheritedRequest,
         mappingsForSkus := (\<lambda>shop skus. Inr [shaped (''S1'', ''P1'')]),
         freightEstimate :=
           (\<lambda>shop payload. Inr (Some \<lparr> currencyCode = None,
              distribution = Some
                [\<lparr> shipFromBranchNumber = ''A'',
                   carrierList = Some [carrierEntry ''UPS'' 10 2] \<rparr>] \<rparr>)),
         parseIntOf := (\<lambda>s. if s = ''1000'' then 1000 else 0),
         fmtNumber := (\<lambda>x. ''10'') \<rparr>"

section \<open>Properties of the rate combiner\<close>


lemma sorted_sortByCharge: "sorted (map totalCharge (sortByCharge rs))"
  by (simp add: sortByCharge_def)


text \<open>
  C9. For every input, with one distribution or several, the result of combineRates is
  sorted by totalCharge: non-decreasing from the first element to the last.
\<close>

theorem combineRates_sorted: "sorted (map totalCharge (combineRates dists))"
  by (simp add: combineRates_def combineSingle_def combineMulti_def sorted_sortByCharge
      split: list.split)

subsection \<open>The carrier map holds the lowest quote of every carrier under every branch\<close>














lemma lowest_eq_None [simp]: "lowest qs = None \<longleftrightarrow> qs = []"
  by (simp add: lowest_def)


lemma maxTransit_Max: "maxTransit legs = Max (insert 0 (set (map (\<lambda>e. snd (snd e)) legs)))"
proof -
  have step: "Max (insert (max a x) S) = Max (insert a (insert x S))"
    if "finite S" for a x :: int and S
    using that by (cases "S = {}") (simp_all add: max.assoc)
  have "foldl (\<lambda>m e. max m (snd (snd e))) a legs
      = Max (insert a (set (map (\<lambda>e. snd (snd e)) legs)))" for a :: int
  proof (induction legs arbitrary: a)
    case Nil
    show ?case by simp
  next
    case (Cons e legs)
    show ?case
      by (simp only: foldl_Cons Cons.IH list.map list.set step [OF finite_set])
  qed
  then show ?thesis
    by (simp add: maxTransit_def)
qed


lemma legs_maxTransit:
  assumes "distinct (map fst legs)"
  shows "maxTransit legs = Max (insert 0 ((\<lambda>b. daysOfQuote (map_of legs b)) ` fst ` set legs))"
proof -
  have "(\<lambda>e. snd (snd e)) ` set legs = (\<lambda>b. daysOfQuote (map_of legs b)) ` fst ` set legs"
    using assms by (force simp: daysOfQuote_def image_iff)
  then show ?thesis
    by (simp add: maxTransit_Max)
qed


subsection \<open>The order of the legs\<close>








subsection \<open>The rates pushed from the carrier map\<close>

lemma setInsertionOrder_distinct: "distinct (setInsertionOrder xs)"
proof -
  have "distinct (foldl (\<lambda>seen x. if x \<in> set seen then seen else seen @ [x]) acc xs)"
    if "distinct acc" for acc :: "'a list"
    using that by (induction xs arbitrary: acc) simp_all
  then show ?thesis
    by (simp add: setInsertionOrder_def)
qed

lemma setInsertionOrder_id:
  assumes "distinct xs"
  shows "setInsertionOrder xs = xs"
proof -
  have "foldl (\<lambda>seen x. if x \<in> set seen then seen else seen @ [x]) acc xs = acc @ xs"
    if "distinct (acc @ xs)" for acc :: "'a list"
    using that by (induction xs arbitrary: acc) auto
  from this [of "[]"] assms show ?thesis
    by (simp add: setInsertionOrder_def)
qed







lemma set_map_filter_iff: "y \<in> set (List.map_filter f xs) \<longleftrightarrow> (\<exists>x \<in> set xs. f x = Some y)"
  by (induction xs) (auto split: option.splits)




subsection \<open>Inputs whose branch numbers are pairwise different\<close>











lemma lowest_in_set:
  assumes "lowest qs = Some q"
  shows "q \<in> set qs"
  using assms arg_min_list_in [of qs fst] by (auto simp: lowest_def split: if_splits)












section \<open>Properties of the TTL cache\<close>

lemma update_present_keys:
  "k \<in> set (map fst al) \<Longrightarrow> map fst (AList.update k v al) = map fst al"
  by (induction al) auto

lemma update_absent:
  "k \<notin> set (map fst al) \<Longrightarrow> AList.update k v al = al @ [(k, v)]"
  by (induction al) auto

lemma delete_first_key:
  assumes "distinct (map fst (e # al))"
  shows "AList.delete (fst e) (e # al) = al"
proof -
  have "fst e \<notin> fst ` set al"
    using assms by simp
  then have "AList.delete (fst e) al = al"
    by (rule delete_id)
  then show ?thesis
    by (cases e) simp
qed

lemma cacheSet_store:
  assumes "distinct (map fst (store c))"
  shows "store (cacheSet now key v customTtlMs c) =
           (let inserted = AList.update key
                             (v, now + (case customTtlMs of None \<Rightarrow> ttlMs c | Some t \<Rightarrow> t)) (store c)
            in if int (length inserted) > maxEntries c then tl inserted else inserted)"
proof -
  define inserted where "inserted = AList.update key
      (v, now + (case customTtlMs of None \<Rightarrow> ttlMs c | Some t \<Rightarrow> t)) (store c)"
  have d: "distinct (map fst inserted)"
    unfolding inserted_def using assms by (rule distinct_update)
  have "(case inserted of [] \<Rightarrow> c \<lparr> store := inserted \<rparr>
         | oldest # _ \<Rightarrow> c \<lparr> store := AList.delete (fst oldest) inserted \<rparr>)
        = c \<lparr> store := tl inserted \<rparr>"
    using d by (cases inserted) (simp_all only: list.case list.sel delete_first_key)
  then show ?thesis
    unfolding cacheSet_def Let_def inserted_def [symmetric] by simp
qed

lemma cacheSet_distinct:
  assumes "distinct (map fst (store c))"
  shows "distinct (map fst (store (cacheSet now key v customTtlMs c)))"
proof -
  have "distinct (map fst (tl al))" if "distinct (map fst al)" for al :: "('a \<times> 'b \<times> int) list"
    using that by (cases al) simp_all
  then show ?thesis
    using assms by (simp add: cacheSet_store Let_def distinct_update)
qed

text \<open>
  C5, as amended. In a store with distinct keys, a set that makes the entry count exceed
  maxEntries evicts exactly one key, the first in insertion order (the oldest-inserted
  surviving key), and a set that does not exceed it evicts none; and a set of a key that
  is already present leaves the insertion order as it was (only the value and the expiry
  are replaced), so a key that was the oldest stays the eviction candidate.
\<close>

theorem cacheSet_eviction:
  assumes "distinct (cacheKeys c)"
  shows "(let inserted = AList.update key
                           (v, now + (case customTtlMs of None \<Rightarrow> ttlMs c | Some t \<Rightarrow> t))
                           (store c)
          in (int (length inserted) > maxEntries c \<longrightarrow>
                store (cacheSet now key v customTtlMs c) = tl inserted \<and>
                cacheKeys (cacheSet now key v customTtlMs c) = tl (map fst inserted) \<and>
                hd (map fst inserted) \<notin> set (cacheKeys (cacheSet now key v customTtlMs c)) \<and>
                cacheSize (cacheSet now key v customTtlMs c) + 1 = length inserted) \<and>
             (\<not> int (length inserted) > maxEntries c \<longrightarrow>
                store (cacheSet now key v customTtlMs c) = inserted) \<and>
             (key \<in> set (cacheKeys c) \<longrightarrow> map fst inserted = cacheKeys c))"
proof -
  define inserted where "inserted = AList.update key
      (v, now + (case customTtlMs of None \<Rightarrow> ttlMs c | Some t \<Rightarrow> t)) (store c)"
  have d0: "distinct (map fst (store c))"
    using assms by (simp add: cacheKeys_def)
  have d: "distinct (map fst inserted)"
    unfolding inserted_def using d0 by (rule distinct_update)
  have ne: "inserted \<noteq> []"
    by (simp add: inserted_def)
  have st: "store (cacheSet now key v customTtlMs c) =
      (if int (length inserted) > maxEntries c then tl inserted else inserted)"
    using cacheSet_store [OF d0, of now key v customTtlMs] by (simp add: Let_def inserted_def)
  have hd_out: "hd (map fst inserted) \<notin> set (map fst (tl inserted))"
    using d ne by (cases inserted) simp_all
  have len: "length (tl inserted) + 1 = length inserted"
    using ne by (cases inserted) simp_all
  have keep: "key \<in> set (cacheKeys c) \<longrightarrow> map fst inserted = cacheKeys c"
    by (simp add: inserted_def cacheKeys_def update_present_keys)
  show ?thesis
    unfolding Let_def inserted_def [symmetric]
    using st hd_out len keep by (simp add: cacheKeys_def cacheSize_def map_tl)
qed

text \<open>
  Witness of C5: setting \<open>c\<close> in the full two-entry cache evicts the first key; setting
  \<open>a\<close> again before that left the keys in the order \<open>a\<close>, \<open>b\<close>.
\<close>

theorem cacheSet_eviction_witness:
  "distinct (cacheKeys exCacheAB) \<and> distinct (cacheKeys exCacheABA) \<and>
   cacheKeys exCacheAB = [''a'', ''b''] \<and> cacheKeys exCacheABA = [''a'', ''b''] \<and>
   cacheKeys exCacheABAC = tl [''a'', ''b'', ''c''] \<and> cacheSize exCacheABAC = 2"
proof -
  have k1: "cacheKeys exCacheAB = [''a'', ''b'']" by code_simp
  have d1: "distinct (cacheKeys exCacheAB)" by (simp add: k1)
  have a: "''a'' \<in> set (cacheKeys exCacheAB)" by (simp add: k1)
  have i1: "length (AList.update ''a'' (3, 2 + ttlMs exCacheAB) (store exCacheAB)) = 2 \<and>
      maxEntries exCacheAB = 2"
    by code_simp
  have k2: "cacheKeys exCacheABA = [''a'', ''b'']"
    using cacheSet_eviction [OF d1, of "''a''" 3 2 None] a i1
    by (simp add: Let_def exCacheABA_def k1 [unfolded cacheKeys_def] cacheKeys_def)
  have d2: "distinct (cacheKeys exCacheABA)" by (simp add: k2)
  have i2: "map fst (AList.update ''c'' (4, 3 + ttlMs exCacheABA) (store exCacheABA))
      = [''a'', ''b'', ''c''] \<and> maxEntries exCacheABA = 2 \<and>
      length (AList.update ''c'' (4, 3 + ttlMs exCacheABA) (store exCacheABA)) = 3"
    by code_simp
  have k3: "cacheKeys exCacheABAC = tl [''a'', ''b'', ''c''] \<and> cacheSize exCacheABAC = 2"
    using cacheSet_eviction [OF d2, of "''c''" 4 3 None] i2
    by (simp add: Let_def exCacheABAC_def)
  show ?thesis
    using k1 d1 k2 d2 k3 by simp
qed

text \<open>
  Counterexample to C5 as stated: after \<open>a\<close>, \<open>b\<close>, and \<open>a\<close> again, the key \<open>a\<close> is
  still the first in insertion order, and the next set beyond the bound evicts \<open>a\<close>, not
  \<open>b\<close>.
\<close>

theorem cacheSet_eviction_counterexample:
  "maxEntries exCacheABA = 2 \<and> cacheKeys exCacheAB = [''a'', ''b''] \<and>
   cacheKeys exCacheABA = [''a'', ''b''] \<and> cacheKeys exCacheABAC = [''b'', ''c'']"
  by code_simp

section \<open>Properties of the freight cache key\<close>

lemma join_two: "join sep [a, b] = a @ sep @ b"
  by simp

lemma sort_mset_eq:
  fixes xs ys :: "'a::linorder list"
  assumes "mset xs = mset ys"
  shows "sort xs = sort ys"
  by (rule properties_for_sort) (simp_all add: assms)

lemma lineKey_perm:
  assumes "mset ls = mset ls'"
  shows "lineKey fmt (Some ls) = lineKey fmt (Some ls')"
proof -
  have "sort (filter (\<lambda>t. t \<noteq> []) (map (lineToken fmt) ls))
      = sort (filter (\<lambda>t. t \<noteq> []) (map (lineToken fmt) ls'))"
    by (rule sort_mset_eq) (simp add: assms)
  then show ?thesis
    by (simp add: lineKey_def)
qed

lemma key_shape:
  "buildFreightCacheKey fmt shop p =
     toLowerCase shop @ ''|'' @ toUpperCase (trim (countryCode (shipToAddress p))) @ ''|'' @
     toUpperCase (trim (state (shipToAddress p))) @ ''|'' @ trim (postalCode (shipToAddress p)) @ ''|'' @
     toLowerCase (trim (city (shipToAddress p))) @ ''|'' @
     toLowerCase (trim (addressLine1 (shipToAddress p))) @ ''|'' @
     normalizeString (billToAddressId p) @ ''|'' @ normalizeString (shipToAddressId p) @ ''|'' @
     lineKey fmt (lines p)"
  by (simp add: buildFreightCacheKey_def destinationKey_def normalizeString_def)

text \<open>
  C3, as amended. For every shop domain and every pair of requests whose line-item arrays
  are permutations of each other, all other fields equal, buildFreightCacheKey gives the
  same key; and two requests that differ in one of postal code, country code, city and
  address line 1 only get different keys exactly when that field differs after the
  normalisation of the key: trimmed, the country code in upper case, the city and the
  address line in lower case.
\<close>

theorem buildFreightCacheKey_deterministic:
  "(mset ls = mset ls' \<longrightarrow>
      buildFreightCacheKey fmt shop (p \<lparr> lines := Some ls \<rparr>)
        = buildFreightCacheKey fmt shop (p \<lparr> lines := Some ls' \<rparr>)) \<and>
   (buildFreightCacheKey fmt shop (p \<lparr> shipToAddress := (shipToAddress p) \<lparr> postalCode := x \<rparr> \<rparr>)
      = buildFreightCacheKey fmt shop (p \<lparr> shipToAddress := (shipToAddress p) \<lparr> postalCode := y \<rparr> \<rparr>)
    \<longleftrightarrow> trim x = trim y) \<and>
   (buildFreightCacheKey fmt shop (p \<lparr> shipToAddress := (shipToAddress p) \<lparr> countryCode := x \<rparr> \<rparr>)
      = buildFreightCacheKey fmt shop (p \<lparr> shipToAddress := (shipToAddress p) \<lparr> countryCode := y \<rparr> \<rparr>)
    \<longleftrightarrow> toUpperCase (trim x) = toUpperCase (trim y)) \<and>
   (buildFreightCacheKey fmt shop (p \<lparr> shipToAddress := (shipToAddress p) \<lparr> city := x \<rparr> \<rparr>)
      = buildFreightCacheKey fmt shop (p \<lparr> shipToAddress := (shipToAddress p) \<lparr> city := y \<rparr> \<rparr>)
    \<longleftrightarrow> toLowerCase (trim x) = toLowerCase (trim y)) \<and>
   (buildFreightCacheKey fmt shop (p \<lparr> shipToAddress := (shipToAddress p) \<lparr> addressLine1 := x \<rparr> \<rparr>)
      = buildFreightCacheKey fmt shop (p \<lparr> shipToAddress := (shipToAddress p) \<lparr> addressLine1 := y \<rparr> \<rparr>)
    \<longleftrightarrow> toLowerCase (trim x) = toLowerCase (trim y))"
proof -
  have "buildFreightCacheKey fmt shop (p \<lparr> lines := Some ls \<rparr>)
      = buildFreightCacheKey fmt shop (p \<lparr> lines := Some ls' \<rparr>)" if "mset ls = mset ls'"
    using lineKey_perm [OF that, of fmt] by (simp add: key_shape)
  then show ?thesis
    by (simp add: key_shape)
qed

text \<open>Witness of C3: two lines in both orders, and two postal codes.\<close>

theorem buildFreightCacheKey_deterministic_witness:
  "mset [exLine1, exLine2] = mset [exLine2, exLine1] \<and>
   buildFreightCacheKey (\<lambda>_. []) ''Shop.Example.com'' (exPayload \<lparr> lines := Some [exLine1, exLine2] \<rparr>)
     = buildFreightCacheKey (\<lambda>_. []) ''Shop.Example.com'' (exPayload \<lparr> lines := Some [exLine2, exLine1] \<rparr>) \<and>
   buildFreightCacheKey (\<lambda>_. []) ''Shop.Example.com'' exPayload
     = ''shop.example.com|US|TX|78701|austin|1 main st||200|002:1|AB123:2'' \<and>
   buildFreightCacheKey (\<lambda>_. []) ''Shop.Example.com''
       (exPayload \<lparr> shipToAddress := (shipToAddress exPayload) \<lparr> postalCode := ''78701'' \<rparr> \<rparr>)
     \<noteq> buildFreightCacheKey (\<lambda>_. []) ''Shop.Example.com''
       (exPayload \<lparr> shipToAddress := (shipToAddress exPayload) \<lparr> postalCode := ''78702'' \<rparr> \<rparr>)"
proof -
  have m: "mset [exLine1, exLine2] = mset [exLine2, exLine1]"
    by (simp add: add_mset_commute)
  have k: "buildFreightCacheKey (\<lambda>_. []) ''Shop.Example.com'' exPayload
      = ''shop.example.com|US|TX|78701|austin|1 main st||200|002:1|AB123:2''"
    by code_simp
  have t: "trim ''78701'' \<noteq> trim ''78702''"
    by code_simp
  note d = buildFreightCacheKey_deterministic
    [of "[exLine1, exLine2]" "[exLine2, exLine1]" "\<lambda>_. []" "''Shop.Example.com''" exPayload
      "''78701''" "''78702''"]
  show ?thesis
    using d m k t by blast
qed

text \<open>
  Counterexample to C3 as stated: a postal code with a trailing space, and a city in
  capitals, differ from those of the example request and give its key.
\<close>

theorem buildFreightCacheKey_deterministic_counterexample:
  "postalCode (shipToAddress exPayload) \<noteq> ''78701 '' \<and>
   buildFreightCacheKey (\<lambda>_. []) ''Shop.Example.com''
       (exPayload \<lparr> shipToAddress := (shipToAddress exPayload) \<lparr> postalCode := ''78701 '' \<rparr> \<rparr>)
     = buildFreightCacheKey (\<lambda>_. []) ''Shop.Example.com'' exPayload \<and>
   city (shipToAddress exPayload) \<noteq> ''AUSTIN'' \<and>
   buildFreightCacheKey (\<lambda>_. []) ''Shop.Example.com''
       (exPayload \<lparr> shipToAddress := (shipToAddress exPayload) \<lparr> city := ''AUSTIN'' \<rparr> \<rparr>)
     = buildFreightCacheKey (\<lambda>_. []) ''Shop.Example.com'' exPayload"
  by code_simp

section \<open>Properties of the formatting\<close>






section \<open>Properties of requestFreightEstimate\<close>

lemma cacheGet_miss:
  assumes "fst (cacheGet now key c) = None"
  shows "map_of (store (snd (cacheGet now key c))) key = None"
  using assms by (auto simp: cacheGet_def delete_conv' split: option.splits if_splits)

lemma cacheGet_absent:
  assumes "map_of (store c) key = None"
  shows "cacheGet now key c = (None, c)"
  using assms by (simp add: cacheGet_def)

lemma requestEnter_Started:
  assumes "requestEnter now key p st = (Started q, st1)"
  shows "map_of (store (freightEstimateCache st1)) key = None"
    and "map_of (inflightFreightRequests st1) key = Some p" and "q = p"
proof -
  have miss: "fst (cacheGet now key (freightEstimateCache st)) = None"
    using assms by (auto simp: requestEnter_def Let_def split: option.splits)
  have st1: "st1 = st \<lparr> freightEstimateCache := snd (cacheGet now key (freightEstimateCache st)),
      inflightFreightRequests := AList.update key p (inflightFreightRequests st) \<rparr>" and "q = p"
    using assms by (auto simp: requestEnter_def Let_def split: option.splits)
  show "q = p" by fact
  show "map_of (store (freightEstimateCache st1)) key = None"
    using cacheGet_miss [OF miss] by (simp add: st1)
  show "map_of (inflightFreightRequests st1) key = Some p"
    by (simp add: st1 update_conv')
qed

lemma requestEnter_fresh:
  assumes "map_of (store (freightEstimateCache st)) key = None"
    and "map_of (inflightFreightRequests st) key = None"
  shows "fst (requestEnter now key p st) = Started p"
  using assms by (simp add: requestEnter_def Let_def cacheGet_absent)

lemma requestSettle_inflight:
  "inflightFreightRequests (snd (requestSettle now key outcome st))
     = AList.delete key (inflightFreightRequests st)"
  by (simp add: requestSettle_def requestFinally_def requestResolve_def
      split: sum.splits prod.splits)

text \<open>
  C4. When a call that started an upstream request settles, with a result or with an
  error, the in-flight map has no entry for its cache key any more and the entries of
  other keys are as they were; and after a call that started an upstream request has
  failed, the next call with the same key, at any later time, starts a new upstream
  request.
\<close>

theorem requestFreightEstimate_inflight_cleared:
  "map_of (inflightFreightRequests (snd (requestSettle now key outcome st))) key = None \<and>
   key \<notin> fst ` set (inflightFreightRequests (snd (requestSettle now key outcome st))) \<and>
   (k \<noteq> key \<longrightarrow>
      map_of (inflightFreightRequests (snd (requestSettle now key outcome st))) k
        = map_of (inflightFreightRequests st) k) \<and>
   (requestEnter now0 key p st = (Started p, st1) \<longrightarrow>
      map_of (inflightFreightRequests st1) key = Some p \<and>
      fst (requestSettle now key (Inl e) st1) = Inl e \<and>
      fst (requestEnter now2 key p2 (snd (requestSettle now key (Inl e) st1))) = Started p2)"
proof -
  note infl = requestSettle_inflight
  have a: "map_of (inflightFreightRequests (snd (requestSettle now key outcome st))) key = None"
    by (simp add: infl delete_conv')
  then have b: "key \<notin> fst ` set (inflightFreightRequests (snd (requestSettle now key outcome st)))"
    by (simp add: map_of_eq_None_iff)
  have c: "map_of (inflightFreightRequests (snd (requestSettle now key outcome st))) k
      = map_of (inflightFreightRequests st) k" if "k \<noteq> key"
    using that by (simp add: infl)
  have d: "map_of (inflightFreightRequests st1) key = Some p \<and>
      fst (requestSettle now key (Inl e) st1) = Inl e \<and>
      fst (requestEnter now2 key p2 (snd (requestSettle now key (Inl e) st1))) = Started p2"
    if "requestEnter now0 key p st = (Started p, st1)"
  proof -
    note s = requestEnter_Started [OF that]
    have "freightEstimateCache (snd (requestSettle now key (Inl e) st1)) = freightEstimateCache st1"
      by (simp add: requestSettle_def requestFinally_def requestResolve_def)
    then have "map_of (store (freightEstimateCache (snd (requestSettle now key (Inl e) st1)))) key = None"
      using s(1) by simp
    moreover have "map_of (inflightFreightRequests (snd (requestSettle now key (Inl e) st1))) key = None"
      by (simp add: infl delete_conv')
    ultimately have "fst (requestEnter now2 key p2 (snd (requestSettle now key (Inl e) st1))) = Started p2"
      by (rule requestEnter_fresh)
    then show ?thesis
      using s(2) by (simp add: requestSettle_def)
  qed
  from a b c d show ?thesis
    by blast
qed

text \<open>
  Witness of C4: the first call for a key starts the upstream request, the answer has
  status 500, and the retry starts a new request; a successful answer clears the entry
  as well.
\<close>

theorem requestFreightEstimate_inflight_cleared_witness:
  "requestEnter 0 ''k'' (1::nat) initialFreightState
     = (Started 1,
        (initialFreightState :: (string, nat) FreightState)
          \<lparr> inflightFreightRequests := [(''k'', 1)] \<rparr>) \<and>
   freightCall None None exUpstreamFails
     = Inl (IngramError ''Failed to fetch freight estimate'' (Some 500)) \<and>
   fst (requestEnter 9 ''k'' (2::nat)
         (snd (requestSettle 5 ''k'' (freightCall None None exUpstreamFails)
                (initialFreightState \<lparr> inflightFreightRequests := [(''k'', 1)] \<rparr>))))
     = (Started 2 :: (string, nat) Entered) \<and>
   inflightFreightRequests
     (snd (requestSettle 5 ''k'' (freightCall None None exUpstreamOk)
            ((initialFreightState :: (string, nat) FreightState)
               \<lparr> inflightFreightRequests := [(''k'', 1)] \<rparr>))) = []"
proof -
  let ?st1 = "(initialFreightState :: (string, nat) FreightState)
      \<lparr> inflightFreightRequests := [(''k'', 1)] \<rparr>"
  have e: "requestEnter 0 ''k'' (1::nat) initialFreightState = (Started 1, ?st1)"
    by (simp add: requestEnter_def initialFreightState_def createTtlCache_def cacheGet_def)
  have f: "freightCall None None exUpstreamFails
      = Inl (IngramError ''Failed to fetch freight estimate'' (Some 500))"
    by (simp add: freightCall_def exUpstreamFails_def orElse_def)
  have ok: "inflightFreightRequests
      (snd (requestSettle 5 ''k'' (freightCall None None exUpstreamOk) ?st1)) = []"
    by (simp add: requestSettle_def requestFinally_def requestResolve_def
        initialFreightState_def split: sum.splits prod.splits)
  note t = requestFreightEstimate_inflight_cleared
    [where now = 5 and key = "''k''" and st = initialFreightState and ?st1.0 = ?st1
      and ?now0.0 = 0 and p = 1 and ?now2.0 = 9 and ?p2.0 = 2
      and e = "IngramError ''Failed to fetch freight estimate'' (Some 500)"]
  have "fst (requestEnter 9 ''k'' (2::nat)
      (snd (requestSettle 5 ''k'' (freightCall None None exUpstreamFails) ?st1)))
      = (Started 2 :: (string, nat) Entered)"
    using t e by (simp add: f)
  with e f ok show ?thesis
    by simp
qed

section \<open>Properties of the SKU mapping resolver\<close>

lemma normalizeSkus_distinct: "distinct (normalizeSkus skus)"
  by (simp add: normalizeSkus_def setInsertionOrder_distinct)

lemma skuCacheKey_inj: "skuCacheKey shop s = skuCacheKey shop s' \<longleftrightarrow> s = s'"
  by (simp add: skuCacheKey_def)

subsection \<open>The look-ups in the cache\<close>

lemma cacheGet_fst: "fst (cacheGet now key c) = liveEntry c now key"
  by (auto simp: cacheGet_def liveEntry_def split: option.splits)

lemma cacheGet_other:
  "k \<noteq> key \<Longrightarrow> map_of (store (snd (cacheGet now key c))) k = map_of (store c) k"
  by (auto simp: cacheGet_def delete_conv' split: option.splits)

lemma cacheGet_same:
  "map_of (store (snd (cacheGet now key c))) key
     = (if liveEntry c now key = None then None else map_of (store c) key)"
  by (auto simp: cacheGet_def liveEntry_def delete_conv' split: option.splits)

lemma cacheGet_store:
  "store (snd (cacheGet now key c)) = store c \<or>
   store (snd (cacheGet now key c)) = AList.delete key (store c)"
  by (auto simp: cacheGet_def split: option.splits)

lemma cacheGet_fields [simp]:
  "maxEntries (snd (cacheGet now key c)) = maxEntries c"
  "ttlMs (snd (cacheGet now key c)) = ttlMs c"
  by (auto simp: cacheGet_def split: option.splits)

lemma liveEntry_cong:
  "map_of (store c') k = map_of (store c) k \<Longrightarrow> liveEntry c' now k = liveEntry c now k"
  by (simp add: liveEntry_def)

lemma cacheStage_snoc:
  "cacheStage shop now (xs @ [x]) c = cacheLookupStep shop now (cacheStage shop now xs c) x"
  by (simp add: cacheStage_def)

lemma cacheStage_spec:
  assumes "distinct xs"
  shows "fst (cacheStage shop now xs c)
           = List.map_filter
               (\<lambda>s. case liveEntry c now (skuCacheKey shop s) of None \<Rightarrow> None | Some v \<Rightarrow> v) xs \<and>
         fst (snd (cacheStage shop now xs c))
           = filter (\<lambda>s. liveEntry c now (skuCacheKey shop s) = None) xs \<and>
         (\<forall>k. map_of (store (snd (snd (cacheStage shop now xs c)))) k
                = (if k \<in> skuCacheKey shop ` set xs \<and> liveEntry c now k = None then None
                   else map_of (store c) k))"
  using assms
proof (induction xs rule: rev_induct)
  case Nil
  show ?case
    by (simp add: cacheStage_def)
next
  case (snoc x xs)
  obtain res toq c' where st: "cacheStage shop now xs c = (res, toq, c')"
    by (cases "cacheStage shop now xs c") auto
  from snoc have x: "x \<notin> set xs"
    and res: "res = List.map_filter
        (\<lambda>s. case liveEntry c now (skuCacheKey shop s) of None \<Rightarrow> None | Some v \<Rightarrow> v) xs"
    and toq: "toq = filter (\<lambda>s. liveEntry c now (skuCacheKey shop s) = None) xs"
    and sto: "\<And>k. map_of (store c') k
        = (if k \<in> skuCacheKey shop ` set xs \<and> liveEntry c now k = None then None
           else map_of (store c) k)"
    by (simp_all add: st)
  let ?key = "skuCacheKey shop x"
  have fresh: "?key \<notin> skuCacheKey shop ` set xs"
    using x by (auto simp: skuCacheKey_inj)
  have same: "map_of (store c') ?key = map_of (store c) ?key"
    using fresh by (simp add: sto)
  have live: "fst (cacheGet now ?key c') = liveEntry c now ?key"
    by (simp add: cacheGet_fst liveEntry_cong [OF same])
  have after: "map_of (store (snd (cacheGet now ?key c'))) k
      = (if k \<in> skuCacheKey shop ` set (xs @ [x]) \<and> liveEntry c now k = None then None
         else map_of (store c) k)" for k
  proof (cases "k = ?key")
    case True
    then show ?thesis
      using same by (simp add: cacheGet_same liveEntry_cong [OF same])
  next
    case False
    then show ?thesis
      by (simp add: cacheGet_other sto)
  qed
  have step: "cacheStage shop now (xs @ [x]) c
      = (case liveEntry c now ?key of
           Some cached \<Rightarrow>
             (case cached of
                Some m \<Rightarrow> (res @ [m], toq, snd (cacheGet now ?key c'))
              | None \<Rightarrow> (res, toq, snd (cacheGet now ?key c')))
         | None \<Rightarrow> (res, toq @ [x], snd (cacheGet now ?key c')))"
    by (simp add: cacheStage_snoc st cacheLookupStep_def live Let_def)
  show ?case
  proof (cases "liveEntry c now ?key")
    case None
    then show ?thesis
      using after by (simp add: step res toq map_filter_def)
  next
    case (Some cached)
    then show ?thesis
      using after by (cases cached) (simp_all add: step res toq map_filter_def)
  qed
qed

lemma cacheStage_fields [simp]:
  "maxEntries (snd (snd (cacheStage shop now xs c))) = maxEntries c"
proof (induction xs rule: rev_induct)
  case Nil
  show ?case
    by (simp add: cacheStage_def)
next
  case (snoc x xs)
  then show ?case
    by (simp add: cacheStage_snoc cacheLookupStep_def Let_def split: option.splits)
qed

lemma cacheStage_snoc_cache:
  "snd (snd (cacheStage shop now (xs @ [x]) c))
     = snd (cacheGet now (skuCacheKey shop x) (snd (snd (cacheStage shop now xs c))))"
  by (simp add: cacheStage_snoc cacheLookupStep_def Let_def split: option.splits)

lemma cacheStage_distinct:
  assumes "distinct (map fst (store c))"
  shows "distinct (map fst (store (snd (snd (cacheStage shop now xs c)))))"
proof (induction xs rule: rev_induct)
  case Nil
  show ?case
    using assms by (simp add: cacheStage_def)
next
  case (snoc x xs)
  have "distinct (map fst (store (snd (cacheGet now key c'))))"
    if "distinct (map fst (store c'))" for key and c' :: SkuCache
    using that cacheGet_store [of now key c'] by (auto simp: distinct_delete)
  with snoc show ?case
    by (simp add: cacheStage_snoc cacheLookupStep_def Let_def split: option.splits)
qed

lemma cacheStage_keys:
  "fst ` set (store (snd (snd (cacheStage shop now xs c)))) \<subseteq> fst ` set (store c)"
proof (induction xs rule: rev_induct)
  case Nil
  show ?case
    by (simp add: cacheStage_def)
next
  case (snoc x xs)
  have "fst ` set (store (snd (cacheGet now key c'))) \<subseteq> fst ` set (store c')"
    for key and c' :: SkuCache
    using cacheGet_store [of now key c'] dom_delete_subset [of key "store c'"]
    by (elim disjE) simp_all
  then have "fst ` set (store (snd (snd (cacheStage shop now (xs @ [x]) c))))
      \<subseteq> fst ` set (store (snd (snd (cacheStage shop now xs c))))"
    by (simp only: cacheStage_snoc_cache)
  then show ?case
    using snoc by (rule subset_trans)
qed

lemma cacheStage_length:
  "length (store (snd (snd (cacheStage shop now xs c)))) \<le> length (store c)"
proof (induction xs rule: rev_induct)
  case Nil
  show ?case
    by (simp add: cacheStage_def)
next
  case (snoc x xs)
  have "length (store (snd (cacheGet now key c'))) \<le> length (store c')"
    for key and c' :: SkuCache
    using cacheGet_store [of now key c'] length_delete_le [of key "store c'"]
    by (elim disjE) simp_all
  then have "length (store (snd (snd (cacheStage shop now (xs @ [x]) c))))
      \<le> length (store (snd (snd (cacheStage shop now xs c))))"
    by (simp only: cacheStage_snoc_cache)
  then show ?case
    using snoc by (rule order_trans)
qed

lemma set_delete_subset: "set (AList.delete k al) \<subseteq> set al"
  by (induction al) auto

lemma cacheStage_entries:
  "set (store (snd (snd (cacheStage shop now xs c)))) \<subseteq> set (store c)"
proof (induction xs rule: rev_induct)
  case Nil
  show ?case
    by (simp add: cacheStage_def)
next
  case (snoc x xs)
  have "set (store (snd (cacheGet now key c'))) \<subseteq> set (store c')"
    for key and c' :: SkuCache
    using cacheGet_store [of now key c'] set_delete_subset [of key "store c'"]
    by (elim disjE) simp_all
  then have "set (store (snd (snd (cacheStage shop now (xs @ [x]) c))))
      \<subseteq> set (store (snd (snd (cacheStage shop now xs c))))"
    by (simp only: cacheStage_snoc_cache)
  then show ?case
    using snoc by (rule subset_trans)
qed

subsection \<open>The writes to the cache\<close>

lemma length_update_le: "length (AList.update k v al) \<le> Suc (length al)"
  by (induction al) auto

lemma cacheSet_fields [simp]:
  "maxEntries (cacheSet now key v t c) = maxEntries c"
  "ttlMs (cacheSet now key v t c) = ttlMs c"
  by (simp_all add: cacheSet_def Let_def split: list.splits)

lemma cacheSet_bounded:
  assumes "distinct (map fst (store c))" and "int (length (store c)) \<le> maxEntries c"
  shows "int (length (store (cacheSet now key v t c))) \<le> maxEntries c"
proof -
  define inserted where "inserted = AList.update key
      (v, now + (case t of None \<Rightarrow> ttlMs c | Some t \<Rightarrow> t)) (store c)"
  have st: "store (cacheSet now key v t c)
      = (if int (length inserted) > maxEntries c then tl inserted else inserted)"
    using cacheSet_store [OF assms(1), of now key v t] by (simp add: Let_def inserted_def)
  have "length inserted \<le> Suc (length (store c))"
    unfolding inserted_def by (rule length_update_le)
  then show ?thesis
    using assms(2) by (auto simp: st)
qed

lemma cacheSet_keys_subset:
  "fst ` set (store (cacheSet now key v t c)) \<subseteq> insert key (fst ` set (store c))"
proof -
  define inserted where "inserted = AList.update key
      (v, now + (case t of None \<Rightarrow> ttlMs c | Some t \<Rightarrow> t)) (store c)"
  have ins: "fst ` set inserted \<subseteq> insert key (fst ` set (store c))"
    by (simp add: inserted_def dom_update)
  have "store (cacheSet now key v t c) = inserted \<or>
      (\<exists>k. store (cacheSet now key v t c) = AList.delete k inserted)"
    unfolding cacheSet_def Let_def inserted_def [symmetric]
    by (cases inserted) auto
  then show ?thesis
  proof
    assume "store (cacheSet now key v t c) = inserted"
    then show ?thesis
      using ins by simp
  next
    assume "\<exists>k. store (cacheSet now key v t c) = AList.delete k inserted"
    then obtain k where "store (cacheSet now key v t c) = AList.delete k inserted" ..
    then show ?thesis
      using dom_delete_subset [of k inserted] ins by simp
  qed
qed

lemma cacheSet_new:
  assumes "distinct (map fst (store c))" and "key \<notin> fst ` set (store c)"
  shows "store (cacheSet now key v (Some t) c)
           = (if int (length (store c)) + 1 > maxEntries c
              then tl (store c @ [(key, v, now + t)]) else store c @ [(key, v, now + t)])"
proof -
  have "AList.update key (v, now + t) (store c) = store c @ [(key, v, now + t)]"
    using assms(2) by (simp add: update_absent)
  then show ?thesis
    using cacheSet_store [OF assms(1), of now key v "Some t"] by (simp add: Let_def)
qed

lemma set_update_subset: "set (AList.update k v al) \<subseteq> insert (k, v) (set al)"
  by (induction al) auto

lemma cacheSet_entries:
  "set (store (cacheSet now key v t c))
     \<subseteq> insert (key, v, now + (case t of None \<Rightarrow> ttlMs c | Some t \<Rightarrow> t)) (set (store c))"
proof -
  define inserted where "inserted = AList.update key
      (v, now + (case t of None \<Rightarrow> ttlMs c | Some t \<Rightarrow> t)) (store c)"
  have ins: "set inserted
      \<subseteq> insert (key, v, now + (case t of None \<Rightarrow> ttlMs c | Some t \<Rightarrow> t)) (set (store c))"
    unfolding inserted_def by (rule set_update_subset)
  have "store (cacheSet now key v t c) = inserted \<or>
      (\<exists>k. store (cacheSet now key v t c) = AList.delete k inserted)"
    unfolding cacheSet_def Let_def inserted_def [symmetric]
    by (cases inserted) auto
  then show ?thesis
  proof
    assume "store (cacheSet now key v t c) = inserted"
    then show ?thesis
      using ins by simp
  next
    assume "\<exists>k. store (cacheSet now key v t c) = AList.delete k inserted"
    then obtain k where "store (cacheSet now key v t c) = AList.delete k inserted" ..
    then show ?thesis
      using set_delete_subset [of k inserted] ins by simp
  qed
qed

lemma cacheAfterLocal_snoc:
  "cacheAfterLocal shop now (rows @ [row]) w
     = skuCacheSet now (skuCacheKey shop (fst row)) (Some (shaped row)) None
         (cacheAfterLocal shop now rows w)"
  by (simp add: cacheAfterLocal_def)

lemma cacheAfterLocal_effects:
  "snd (cacheAfterLocal shop now rows w)
     = snd w @ map (\<lambda>row. CacheWrite (skuCacheKey shop (fst row)) (Some (shaped row)) None) rows"
  by (induction rows rule: rev_induct) (simp_all add: cacheAfterLocal_snoc skuCacheSet_def, simp add: cacheAfterLocal_def)

lemma cacheAfterLocal_keys:
  "fst ` set (store (fst (cacheAfterLocal shop now rows w)))
     \<subseteq> fst ` set (store (fst w)) \<union> skuCacheKey shop ` fst ` set rows"
proof (induction rows rule: rev_induct)
  case Nil
  show ?case
    by (simp add: cacheAfterLocal_def)
next
  case (snoc row rows)
  have "fst ` set (store (fst (cacheAfterLocal shop now (rows @ [row]) w)))
      \<subseteq> insert (skuCacheKey shop (fst row))
          (fst ` set (store (fst (cacheAfterLocal shop now rows w))))"
    by (simp add: cacheAfterLocal_snoc skuCacheSet_def cacheSet_keys_subset)
  also have "\<dots> \<subseteq> insert (skuCacheKey shop (fst row))
      (fst ` set (store (fst w)) \<union> skuCacheKey shop ` fst ` set rows)"
    using snoc.IH by (rule insert_mono)
  also have "\<dots> = fst ` set (store (fst w)) \<union> skuCacheKey shop ` fst ` set (rows @ [row])"
    by (simp add: image_Un)
  finally show ?case .
qed

lemma cacheAfterLocal_fields [simp]:
  "maxEntries (fst (cacheAfterLocal shop now rows w)) = maxEntries (fst w)"
  by (induction rows rule: rev_induct) (simp_all add: cacheAfterLocal_snoc skuCacheSet_def, simp add: cacheAfterLocal_def)

lemma cacheAfterLocal_bounded:
  assumes "distinct (map fst (store (fst w)))" and "int (length (store (fst w))) \<le> maxEntries (fst w)"
  shows "distinct (map fst (store (fst (cacheAfterLocal shop now rows w)))) \<and>
         int (length (store (fst (cacheAfterLocal shop now rows w)))) \<le> maxEntries (fst w)"
proof (induction rows rule: rev_induct)
  case Nil
  show ?case
    using assms by (simp add: cacheAfterLocal_def)
next
  case (snoc row rows)
  then show ?case
    using cacheSet_bounded [of "fst (cacheAfterLocal shop now rows w)" now
        "skuCacheKey shop (fst row)" "Some (shaped row)" None]
    by (simp add: cacheAfterLocal_snoc skuCacheSet_def cacheSet_distinct)
qed

lemma cacheNegatives_snoc:
  "cacheNegatives shop now (ms @ [s]) w
     = skuCacheSet now (skuCacheKey shop s) None (Some SKU_CACHE_NEGATIVE_TTL_MS)
         (cacheNegatives shop now ms w)"
  by (simp add: cacheNegatives_def)

lemma cacheNegatives_effects:
  "snd (cacheNegatives shop now ms w)
     = snd w @ map (\<lambda>s. CacheWrite (skuCacheKey shop s) None (Some 60000)) ms"
proof (induction ms rule: rev_induct)
  case Nil
  show ?case
    by (simp add: cacheNegatives_def)
next
  case (snoc s ms)
  then show ?case
    by (simp add: cacheNegatives_snoc skuCacheSet_def SKU_CACHE_NEGATIVE_TTL_MS_def)
qed

lemma cacheNegatives_distinct:
  assumes "distinct (map fst (store (fst w)))"
  shows "distinct (map fst (store (fst (cacheNegatives shop now ms w))))"
proof (induction ms rule: rev_induct)
  case Nil
  show ?case
    using assms by (simp add: cacheNegatives_def)
next
  case (snoc s ms)
  then show ?case
    by (simp add: cacheNegatives_snoc skuCacheSet_def cacheSet_distinct)
qed

text \<open>
  Negative entries for new keys: the store keeps its newest entries, as many as the cache
  may hold, of the old ones followed by the new ones.
\<close>

lemma cacheNegatives_store:
  assumes "distinct (map fst (store (fst w)))"
    and "int (length (store (fst w))) \<le> maxEntries (fst w)"
    and "distinct ms"
    and "skuCacheKey shop ` set ms \<inter> fst ` set (store (fst w)) = {}"
  shows "store (fst (cacheNegatives shop now ms w))
           = drop (length (store (fst w)) + length ms - nat (maxEntries (fst w)))
               (store (fst w) @ map (\<lambda>s. (skuCacheKey shop s, None, now + 60000)) ms) \<and>
         maxEntries (fst (cacheNegatives shop now ms w)) = maxEntries (fst w)"
  using assms(3,4)
proof (induction ms rule: rev_induct)
  case Nil
  show ?case
    using assms(2) by (simp add: cacheNegatives_def)
next
  case (snoc s ms)
  define S where "S = store (fst w)"
  define M where "M = nat (maxEntries (fst w))"
  define new where "new = map (\<lambda>s. (skuCacheKey shop s, None :: IngramSkuMapping option, now + 60000)) ms"
  define c' where "c' = fst (cacheNegatives shop now ms w)"
  define e where "e = (skuCacheKey shop s, None :: IngramSkuMapping option, now + 60000)"
  have M: "maxEntries (fst w) = int M" and lenS: "length S \<le> M"
    using assms(2) by (simp_all add: M_def S_def)
  from snoc.prems have d: "distinct ms" and s: "s \<notin> set ms"
    and disj: "skuCacheKey shop ` set ms \<inter> fst ` set S = {}"
    and sS: "skuCacheKey shop s \<notin> fst ` set S"
    by (auto simp: S_def)
  note ih = snoc.IH [OF d disj [unfolded S_def]]
  have st: "store c' = drop (length S + length ms - M) (S @ new)"
    using ih unfolding c'_def S_def M_def new_def by simp
  have mx: "maxEntries c' = int M"
    using ih M unfolding c'_def by simp
  have keys_new: "map fst new = map (skuCacheKey shop) ms"
    by (simp add: new_def comp_def)
  have dS: "distinct (map fst S)"
    using assms(1) by (simp add: S_def)
  have dnew: "distinct (map fst new)"
    using d by (simp add: keys_new distinct_map inj_on_def skuCacheKey_inj)
  have "set (map fst S) \<inter> set (map fst new) = {}"
    using disj by (simp add: keys_new Int_commute)
  then have dall: "distinct (map fst (S @ new))"
    using dS dnew by simp
  have dc': "distinct (map fst (store c'))"
  proof -
    have "distinct (drop (length S + length ms - M) (map fst (S @ new)))"
      using dall by (rule distinct_drop)
    then show ?thesis
      by (simp only: st drop_map)
  qed
  have "skuCacheKey shop s \<notin> fst ` set (S @ new)"
    using sS s by (auto simp: new_def skuCacheKey_inj)
  then have fresh: "skuCacheKey shop s \<notin> fst ` set (store c')"
    unfolding st using set_drop_subset [of "length S + length ms - M" "S @ new"] by blast
  have set': "store (cacheSet now (skuCacheKey shop s) None (Some SKU_CACHE_NEGATIVE_TTL_MS) c')
      = (if int (length (store c')) + 1 > int M then tl (store c' @ [e]) else store c' @ [e])"
    using cacheSet_new [OF dc' fresh, of now None SKU_CACHE_NEGATIVE_TTL_MS]
    by (simp add: mx e_def SKU_CACHE_NEGATIVE_TTL_MS_def)
  have len: "length (store c') = length S + length ms - (length S + length ms - M)"
    by (simp add: st new_def)
  have "(if int (length (store c')) + 1 > int M then tl (store c' @ [e]) else store c' @ [e])
      = drop (length S + length (ms @ [s]) - M) (S @ new @ [e])"
  proof (cases "length S + length ms + 1 \<le> M")
    case True
    then show ?thesis
      using len by (simp add: st)
  next
    case False
    then have big: "int (length (store c')) + 1 > int M"
      using len by linarith
    have le: "length S + length ms - M \<le> length (S @ new)"
      by (simp add: new_def)
    have "tl (store c' @ [e]) = tl (drop (length S + length ms - M) ((S @ new) @ [e]))"
      unfolding st using le by simp
    also have "\<dots> = drop (Suc (length S + length ms - M)) ((S @ new) @ [e])"
      by (simp only: tl_drop drop_Suc)
    also have "Suc (length S + length ms - M) = length S + length (ms @ [s]) - M"
      using False by simp
    finally show ?thesis
      using big by simp
  qed
  then have "store (cacheSet now (skuCacheKey shop s) None (Some SKU_CACHE_NEGATIVE_TTL_MS) c')
      = drop (length S + length (ms @ [s]) - M)
          (S @ map (\<lambda>s. (skuCacheKey shop s, None, now + 60000)) (ms @ [s]))"
    by (simp add: set' new_def e_def)
  moreover have "maxEntries (cacheSet now (skuCacheKey shop s) None (Some SKU_CACHE_NEGATIVE_TTL_MS) c')
      = maxEntries (fst w)"
    by (simp add: mx M)
  ultimately show ?case
    unfolding cacheNegatives_snoc skuCacheSet_def fst_conv c'_def [symmetric] S_def [symmetric]
      M_def [symmetric]
    by (rule conjI)
qed

lemma cacheFetched_snoc:
  "foldl (cacheFetchedStep shop now fetched) acc (ms @ [s])
     = cacheFetchedStep shop now fetched (foldl (cacheFetchedStep shop now fetched) acc ms) s"
  by simp

subsection \<open>The bounded cache\<close>

lemma skuCacheBounded_iff:
  "skuCacheBounded c \<longleftrightarrow> distinct (map fst (store c)) \<and> int (length (store c)) \<le> maxEntries c"
  by (simp add: skuCacheBounded_def cacheKeys_def cacheSize_def)

lemma skuCacheBounded_initial: "skuCacheBounded initialSkuCache"
  by (simp add: skuCacheBounded_iff initialSkuCache_def createTtlCache_def)

lemma cacheStage_bounded:
  assumes "skuCacheBounded c"
  shows "skuCacheBounded (snd (snd (cacheStage shop now xs c)))"
proof -
  have "int (length (store (snd (snd (cacheStage shop now xs c))))) \<le> int (length (store c))"
    using cacheStage_length [of shop now xs c] by simp
  then show ?thesis
    using assms by (simp add: skuCacheBounded_iff cacheStage_distinct)
qed

lemma skuCacheSet_bounded:
  assumes "skuCacheBounded (fst w)"
  shows "skuCacheBounded (fst (skuCacheSet now key v t w))"
  using assms cacheSet_bounded [of "fst w" now key v t]
  by (simp add: skuCacheBounded_iff skuCacheSet_def cacheSet_distinct)

lemma cacheAfterLocal_kept_bounded:
  assumes "skuCacheBounded (fst w)"
  shows "skuCacheBounded (fst (cacheAfterLocal shop now rows w))"
proof (induction rows rule: rev_induct)
  case Nil
  show ?case
    using assms by (simp add: cacheAfterLocal_def)
next
  case (snoc row rows)
  show ?case
    unfolding cacheAfterLocal_snoc by (rule skuCacheSet_bounded [OF snoc.IH])
qed

lemma cacheNegatives_bounded:
  assumes "skuCacheBounded (fst w)"
  shows "skuCacheBounded (fst (cacheNegatives shop now ms w))"
proof (induction ms rule: rev_induct)
  case Nil
  show ?case
    using assms by (simp add: cacheNegatives_def)
next
  case (snoc s ms)
  show ?case
    unfolding cacheNegatives_snoc by (rule skuCacheSet_bounded [OF snoc.IH])
qed

lemma cacheFetched_bounded:
  assumes "skuCacheBounded (fst (snd acc))"
  shows "skuCacheBounded (fst (snd (foldl (cacheFetchedStep shop now fetched) acc ms)))"
proof (induction ms rule: rev_induct)
  case Nil
  show ?case
    using assms by simp
next
  case (snoc s ms)
  let ?w = "snd (foldl (cacheFetchedStep shop now fetched) acc ms)"
  show ?case
  proof (cases "map_of (rev fetched) s")
    case None
    have "skuCacheBounded (fst (skuCacheSet now (skuCacheKey shop s) None
        (Some SKU_CACHE_NEGATIVE_TTL_MS) ?w))"
      by (rule skuCacheSet_bounded [OF snoc.IH])
    then show ?thesis
      unfolding cacheFetched_snoc using None by (simp add: cacheFetchedStep_def)
  next
    case (Some part)
    have "skuCacheBounded (fst (skuCacheSet now (skuCacheKey shop s) (Some (shaped (s, part)))
        (Some SKU_CACHE_TTL_MS) ?w))"
      by (rule skuCacheSet_bounded [OF snoc.IH])
    then show ?thesis
      unfolding cacheFetched_snoc using Some by (simp add: cacheFetchedStep_def)
  qed
qed

text \<open>Every call keeps the cache bounded, whatever the option and the answers of the stores.\<close>

lemma skuCacheBounded_kept:
  assumes "skuCacheBounded c"
  shows "skuCacheBounded
           (skuCacheAfter (getIngramMappingsForSkus world now0 now1 now2 shop skus allow c))"
proof -
  let ?staged = "cacheStage shop now0 (normalizeSkus skus) c"
  let ?c0 = "snd (snd ?staged)"
  let ?toq = "fst (snd ?staged)"
  let ?rows = "localRows world shop ?toq"
  let ?w1 = "cacheAfterLocal shop now1 ?rows (?c0, [])"
  let ?missing = "filter (\<lambda>s. s \<notin> fst ` set ?rows) ?toq"
  have i0: "skuCacheBounded ?c0"
    by (rule cacheStage_bounded [OF assms])
  have i1: "skuCacheBounded (fst ?w1)"
    by (rule cacheAfterLocal_kept_bounded) (simp add: i0)
  have i2: "skuCacheBounded (fst (cacheNegatives shop now1 ?missing ?w1))"
    by (rule cacheNegatives_bounded [OF i1])
  have i3: "skuCacheBounded (fst (snd (foldl (cacheFetchedStep shop now2 fetched)
      (res, fst ?w1, log) ?missing)))" for fetched res log
    by (rule cacheFetched_bounded) (simp add: i1)
  show ?thesis
    unfolding getIngramMappingsForSkus_def Let_def
    using assms i0 i1 i2 i3 by (simp split: sum.splits)
qed

subsection \<open>The cache keyed by SKU\<close>

lemma skuCacheKeyedD:
  assumes "skuCacheKeyed c" and "(k, Some m, e) \<in> set (store c)"
  shows "skuKeyed k m"
proof -
  have "\<forall>entry \<in> set (store c).
      case fst (snd entry) of None \<Rightarrow> True | Some m \<Rightarrow> skuKeyed (fst entry) m"
    using assms(1) by (simp add: skuCacheKeyed_def list_all_iff)
  with assms(2) show ?thesis
    by fastforce
qed

lemma skuCacheKeyedI:
  assumes "\<And>k m e. (k, Some m, e) \<in> set (store c) \<Longrightarrow> skuKeyed k m"
  shows "skuCacheKeyed c"
  using assms by (auto simp: skuCacheKeyed_def list_all_iff split: option.splits)

lemma skuCacheKeyed_initial: "skuCacheKeyed initialSkuCache"
  by (simp add: skuCacheKeyed_def initialSkuCache_def createTtlCache_def)

lemma skuCacheKeyed_subset:
  assumes "skuCacheKeyed c" and "set (store c') \<subseteq> set (store c)"
  shows "skuCacheKeyed c'"
  using assms by (blast intro: skuCacheKeyedI dest: skuCacheKeyedD)

lemma cacheStage_keyed:
  assumes "skuCacheKeyed c"
  shows "skuCacheKeyed (snd (snd (cacheStage shop now xs c)))"
  using assms cacheStage_entries by (rule skuCacheKeyed_subset)

lemma skuKeyed_shop:
  assumes "CHR '':'' \<notin> set shop"
  shows "skuKeyed (skuCacheKey shop s) m \<longleftrightarrow> sku m = s"
proof -
  have "takeWhile (\<lambda>ch. ch \<noteq> CHR '':'') (shop @ ''::'' @ s) = shop"
    using assms by (subst takeWhile_append2) auto
  then show ?thesis
    by (auto simp: skuKeyed_def skuCacheKey_def)
qed

lemma skuCacheSet_keyed:
  assumes "skuCacheKeyed (fst w)" and "\<And>m. v = Some m \<Longrightarrow> skuKeyed key m"
  shows "skuCacheKeyed (fst (skuCacheSet now key v t w))"
proof (rule skuCacheKeyedI)
  fix k m e
  assume "(k, Some m, e) \<in> set (store (fst (skuCacheSet now key v t w)))"
  then have "(k, Some m, e) \<in> set (store (fst w)) \<or> (k = key \<and> v = Some m)"
    using cacheSet_entries [of now key v t "fst w"] by (auto simp: skuCacheSet_def)
  then show "skuKeyed k m"
    using skuCacheKeyedD [OF assms(1)] assms(2) by blast
qed

lemma cacheAfterLocal_keyed:
  assumes "CHR '':'' \<notin> set shop" and "skuCacheKeyed (fst w)"
  shows "skuCacheKeyed (fst (cacheAfterLocal shop now rows w))"
proof (induction rows rule: rev_induct)
  case Nil
  show ?case
    using assms(2) by (simp add: cacheAfterLocal_def)
next
  case (snoc row rows)
  show ?case
    unfolding cacheAfterLocal_snoc
    by (rule skuCacheSet_keyed [OF snoc.IH]) (simp add: skuKeyed_shop [OF assms(1)] shaped_def)
qed

lemma cacheNegatives_keyed:
  assumes "skuCacheKeyed (fst w)"
  shows "skuCacheKeyed (fst (cacheNegatives shop now ms w))"
proof (induction ms rule: rev_induct)
  case Nil
  show ?case
    using assms by (simp add: cacheNegatives_def)
next
  case (snoc s ms)
  show ?case
    unfolding cacheNegatives_snoc by (rule skuCacheSet_keyed [OF snoc.IH]) simp
qed

lemma cacheFetched_keyed:
  assumes "CHR '':'' \<notin> set shop" and "skuCacheKeyed (fst (snd acc))"
  shows "skuCacheKeyed (fst (snd (foldl (cacheFetchedStep shop now fetched) acc ms)))"
proof (induction ms rule: rev_induct)
  case Nil
  show ?case
    using assms(2) by simp
next
  case (snoc s ms)
  let ?w = "snd (foldl (cacheFetchedStep shop now fetched) acc ms)"
  show ?case
  proof (cases "map_of (rev fetched) s")
    case None
    have "skuCacheKeyed (fst (skuCacheSet now (skuCacheKey shop s) None
        (Some SKU_CACHE_NEGATIVE_TTL_MS) ?w))"
      by (rule skuCacheSet_keyed [OF snoc.IH]) simp
    then show ?thesis
      unfolding cacheFetched_snoc using None by (simp add: cacheFetchedStep_def)
  next
    case (Some part)
    have "skuCacheKeyed (fst (skuCacheSet now (skuCacheKey shop s) (Some (shaped (s, part)))
        (Some SKU_CACHE_TTL_MS) ?w))"
      by (rule skuCacheSet_keyed [OF snoc.IH]) (simp add: skuKeyed_shop [OF assms(1)] shaped_def)
    then show ?thesis
      unfolding cacheFetched_snoc using Some by (simp add: cacheFetchedStep_def)
  qed
qed

text \<open>
  Every call for a shop domain without a colon keeps the cache keyed by SKU, whatever the
  option and the answers of the stores.
\<close>

lemma skuCacheKeyed_kept:
  assumes "CHR '':'' \<notin> set shop" and "skuCacheKeyed c"
  shows "skuCacheKeyed
           (skuCacheAfter (getIngramMappingsForSkus world now0 now1 now2 shop skus allow c))"
proof -
  let ?staged = "cacheStage shop now0 (normalizeSkus skus) c"
  let ?c0 = "snd (snd ?staged)"
  let ?toq = "fst (snd ?staged)"
  let ?rows = "localRows world shop ?toq"
  let ?w1 = "cacheAfterLocal shop now1 ?rows (?c0, [])"
  let ?missing = "filter (\<lambda>s. s \<notin> fst ` set ?rows) ?toq"
  have i0: "skuCacheKeyed ?c0"
    by (rule cacheStage_keyed [OF assms(2)])
  have i1: "skuCacheKeyed (fst ?w1)"
    by (rule cacheAfterLocal_keyed [OF assms(1)]) (simp add: i0)
  have i2: "skuCacheKeyed (fst (cacheNegatives shop now1 ?missing ?w1))"
    by (rule cacheNegatives_keyed [OF i1])
  have i3: "skuCacheKeyed (fst (snd (foldl (cacheFetchedStep shop now2 fetched)
      (res, fst ?w1, log) ?missing)))" for fetched res log
    by (rule cacheFetched_keyed [OF assms(1)]) (simp add: i1)
  show ?thesis
    unfolding getIngramMappingsForSkus_def Let_def
    using assms(2) i0 i1 i2 i3 by (simp split: sum.splits)
qed

subsection \<open>A call without remote fallback\<close>

lemma normalizeSkus_Nil: "normalizeSkus [] = []"
  by (simp add: normalizeSkus_def setInsertionOrder_def)

lemma noFallback_eq:
  "getIngramMappingsForSkus world now0 now1 now2 shop skus (Some False) c =
     \<lparr> mappings = Inr (cacheHits now0 shop skus c @ map shaped (askedRows world now0 shop skus c)),
       skuCacheAfter =
         fst (cacheNegatives shop now1 (unresolvedSkus world now0 shop skus c)
                (cacheAfterLocal shop now1 (askedRows world now0 shop skus c)
                   (snd (snd (cacheStage shop now0 (normalizeSkus skus) c)), []))),
       effects =
         snd (cacheNegatives shop now1 (unresolvedSkus world now0 shop skus c)
                (cacheAfterLocal shop now1 (askedRows world now0 shop skus c)
                   (snd (snd (cacheStage shop now0 (normalizeSkus skus) c)), []))) \<rparr>"
proof -
  note spec = cacheStage_spec [OF normalizeSkus_distinct, of shop now0 skus c]
  have hits: "fst (cacheStage shop now0 (normalizeSkus skus) c) = cacheHits now0 shop skus c"
    using spec by (simp add: cacheHits_def)
  have toq: "fst (snd (cacheStage shop now0 (normalizeSkus skus) c)) = cacheMisses now0 shop skus c"
    using spec by (simp add: cacheMisses_def)
  show ?thesis
  proof (cases "skus = []")
    case True
    then show ?thesis
      by (simp add: getIngramMappingsForSkus_def cacheHits_def cacheMisses_def askedRows_def
          unresolvedSkus_def normalizeSkus_Nil cacheNegatives_def cacheAfterLocal_def cacheStage_def)
  next
    case False
    show ?thesis
    proof (cases "cacheMisses now0 shop skus c = []")
      case True
      then show ?thesis
        using False
        by (simp add: getIngramMappingsForSkus_def Let_def hits toq askedRows_def
            unresolvedSkus_def cacheNegatives_def cacheAfterLocal_def)
    next
      case misses: False
      have rows: "localRows world shop (cacheMisses now0 shop skus c) = askedRows world now0 shop skus c"
        using misses by (simp add: localRows_def askedRows_def)
      show ?thesis
      proof (cases "unresolvedSkus world now0 shop skus c = []")
        case True
        then show ?thesis
          using False misses
          by (simp add: getIngramMappingsForSkus_def Let_def hits toq rows
              unresolvedSkus_def [symmetric] cacheNegatives_def)
      next
        case unres: False
        then show ?thesis
          using False misses
          by (simp add: getIngramMappingsForSkus_def Let_def hits toq rows
              unresolvedSkus_def [symmetric])
      qed
    qed
  qed
qed

lemma noFallback_effects:
  "effects (getIngramMappingsForSkus world now0 now1 now2 shop skus (Some False) c)
     = map (\<lambda>row. CacheWrite (skuCacheKey shop (fst row)) (Some (shaped row)) None)
         (askedRows world now0 shop skus c) @
       map (\<lambda>s. CacheWrite (skuCacheKey shop s) None (Some 60000))
         (unresolvedSkus world now0 shop skus c)"
  by (simp add: noFallback_eq cacheNegatives_effects cacheAfterLocal_effects)

lemma unresolved_distinct: "distinct (unresolvedSkus world now0 shop skus c)"
  by (simp add: unresolvedSkus_def cacheMisses_def normalizeSkus_distinct)

text \<open>
  The store after a call without remote fallback, in a cache with distinct keys and no
  more entries than it may hold: the store that the look-ups and the rows of the local
  store leave, less its oldest entries where the cache is full, followed by the negative
  entries of the unresolved SKUs, less the first of them where they alone are more than
  the cache can hold.
\<close>

lemma noFallback_store:
  assumes "distinct (map fst (store c))" and "int (length (store c)) \<le> maxEntries c"
  shows "\<exists>S. fst ` set S \<subseteq> fst ` set (store c) \<union>
                  skuCacheKey shop ` fst ` set (askedRows world now0 shop skus c) \<and>
           store (skuCacheAfter
                    (getIngramMappingsForSkus world now0 now1 now2 shop skus (Some False) c))
             = S @ map (\<lambda>s. (skuCacheKey shop s, None, now1 + 60000))
                     (drop (length (unresolvedSkus world now0 shop skus c) - nat (maxEntries c))
                        (unresolvedSkus world now0 shop skus c))"
    and "distinct (map fst (store (skuCacheAfter
           (getIngramMappingsForSkus world now0 now1 now2 shop skus (Some False) c))))"
proof -
  let ?c0 = "snd (snd (cacheStage shop now0 (normalizeSkus skus) c))"
  let ?rows = "askedRows world now0 shop skus c"
  let ?w1 = "cacheAfterLocal shop now1 ?rows (?c0, [])"
  let ?unres = "unresolvedSkus world now0 shop skus c"
  let ?out = "getIngramMappingsForSkus world now0 now1 now2 shop skus (Some False) c"
  note spec = cacheStage_spec [OF normalizeSkus_distinct, of shop now0 skus c]
  have d0: "distinct (map fst (store ?c0))"
    by (rule cacheStage_distinct [OF assms(1)])
  have l0: "int (length (store ?c0)) \<le> maxEntries ?c0"
    using cacheStage_length [of shop now0 "normalizeSkus skus" c] assms(2) by simp
  have b1: "distinct (map fst (store (fst ?w1)))"
    "int (length (store (fst ?w1))) \<le> maxEntries (fst ?w1)"
    using cacheAfterLocal_bounded [of "(?c0, [])" shop now1 ?rows] d0 l0 by simp_all
  have keys0: "fst ` set (store ?c0) \<subseteq> fst ` set (store c)"
    by (rule cacheStage_keys)
  have keys1: "fst ` set (store (fst ?w1))
      \<subseteq> fst ` set (store c) \<union> skuCacheKey shop ` fst ` set ?rows"
  proof -
    have "fst ` set (store (fst ?w1))
        \<subseteq> fst ` set (store ?c0) \<union> skuCacheKey shop ` fst ` set ?rows"
      using cacheAfterLocal_keys [of shop now1 ?rows "(?c0, [])"] by simp
    also have "\<dots> \<subseteq> fst ` set (store c) \<union> skuCacheKey shop ` fst ` set ?rows"
      using keys0 by (rule Un_mono) simp
    finally show ?thesis .
  qed
  have absent0: "skuCacheKey shop s \<notin> fst ` set (store ?c0)" if "s \<in> set ?unres" for s
  proof -
    have "s \<in> set (normalizeSkus skus)"
      and "liveEntry c now0 (skuCacheKey shop s) = None"
      using that by (simp_all add: unresolvedSkus_def cacheMisses_def)
    then have "map_of (store ?c0) (skuCacheKey shop s) = None"
      using spec by simp
    then show ?thesis
      by (simp add: map_of_eq_None_iff)
  qed
  have absent1: "skuCacheKey shop ` set ?unres \<inter> fst ` set (store (fst ?w1)) = {}"
  proof -
    have "skuCacheKey shop s \<notin> fst ` set (store (fst ?w1))" if s: "s \<in> set ?unres" for s
    proof
      assume "skuCacheKey shop s \<in> fst ` set (store (fst ?w1))"
      moreover have "fst ` set (store (fst ?w1))
          \<subseteq> fst ` set (store ?c0) \<union> skuCacheKey shop ` fst ` set ?rows"
        using cacheAfterLocal_keys [of shop now1 ?rows "(?c0, [])"] by simp
      ultimately have "skuCacheKey shop s
          \<in> fst ` set (store ?c0) \<union> skuCacheKey shop ` fst ` set ?rows"
        by (rule rev_subsetD)
      moreover have "s \<notin> fst ` set ?rows"
        using s by (simp add: unresolvedSkus_def)
      ultimately show False
        using absent0 [OF s] by (force simp: skuCacheKey_inj)
    qed
    then show ?thesis
      by blast
  qed
  note neg = cacheNegatives_store [OF b1 unresolved_distinct absent1]
  have mx: "maxEntries (fst ?w1) = maxEntries c"
    by simp
  have st: "store (skuCacheAfter ?out)
      = drop (length (store (fst ?w1)) + length ?unres - nat (maxEntries c))
          (store (fst ?w1) @ map (\<lambda>s. (skuCacheKey shop s, None, now1 + 60000)) ?unres)"
    using neg by (simp add: noFallback_eq mx)
  have sub: "length (store (fst ?w1)) + length ?unres - nat (maxEntries c) - length (store (fst ?w1))
      = length ?unres - nat (maxEntries c)"
    by arith
  have st': "store (skuCacheAfter ?out)
      = drop (length (store (fst ?w1)) + length ?unres - nat (maxEntries c)) (store (fst ?w1)) @
        map (\<lambda>s. (skuCacheKey shop s, None, now1 + 60000))
          (drop (length ?unres - nat (maxEntries c)) ?unres)"
    unfolding st drop_append sub drop_map ..
  have "fst ` set (drop (length (store (fst ?w1)) + length ?unres - nat (maxEntries c))
      (store (fst ?w1))) \<subseteq> fst ` set (store (fst ?w1))"
    using set_drop_subset by (rule image_mono)
  then have "fst ` set (drop (length (store (fst ?w1)) + length ?unres - nat (maxEntries c))
      (store (fst ?w1))) \<subseteq> fst ` set (store c) \<union> skuCacheKey shop ` fst ` set ?rows"
    using keys1 by (rule subset_trans)
  then show "\<exists>S. fst ` set S \<subseteq> fst ` set (store c) \<union>
                  skuCacheKey shop ` fst ` set (askedRows world now0 shop skus c) \<and>
           store (skuCacheAfter ?out)
             = S @ map (\<lambda>s. (skuCacheKey shop s, None, now1 + 60000))
                     (drop (length ?unres - nat (maxEntries c)) ?unres)"
    using st' by (intro exI conjI)
  have "distinct (map fst (store (fst (cacheNegatives shop now1 ?unres ?w1))))"
    using b1(1) by (simp add: cacheNegatives_distinct)
  then show "distinct (map fst (store (skuCacheAfter ?out)))"
    by (simp add: noFallback_eq)
qed

lemma cacheGet_live:
  assumes "map_of (store c) key = Some (v, e)"
  shows "fst (cacheGet t key c) = (if t < e then Some v else None)"
  using assms by (auto simp: cacheGet_def)

lemma cacheHits_sku:
  assumes "skuCacheKeyed c" and "CHR '':'' \<notin> set shop" and "m \<in> set (cacheHits now0 shop skus c)"
  shows "sku m \<in> set (normalizeSkus skus) \<and> liveEntry c now0 (skuCacheKey shop (sku m)) \<noteq> None"
proof -
  from assms(3) obtain s where s: "s \<in> set (normalizeSkus skus)"
    and live: "liveEntry c now0 (skuCacheKey shop s) = Some (Some m)"
    by (auto simp: cacheHits_def set_map_filter_iff split: option.splits)
  from live obtain e where "map_of (store c) (skuCacheKey shop s) = Some (Some m, e)"
    by (auto simp: liveEntry_def split: option.splits if_splits)
  then have "(skuCacheKey shop s, Some m, e) \<in> set (store c)"
    by (rule map_of_SomeD)
  then have "skuKeyed (skuCacheKey shop s) m"
    by (rule skuCacheKeyedD [OF assms(1)])
  then have "sku m = s"
    by (simp add: skuKeyed_shop [OF assms(2)])
  then show ?thesis
    using s live by simp
qed

lemma set_map_shaped: "m \<in> set (map shaped rows) \<Longrightarrow> sku m \<in> fst ` set rows"
  by (force simp: shaped_def image_iff)

text \<open>
  C6, as amended. A call with remote fallback turned off issues no remote query and no
  write-through: all it does is write to the cache, a positive entry for every row of the
  local store and then a negative entry with the one-minute TTL for every SKU that is
  still unresolved after the cache and the local store. It returns the hits of the cache
  followed by the rows of the local store. In a bounded cache the negative entries are
  found afterwards, and are live until one minute after the write and not longer, for
  every unresolved SKU when they are not more than the cache may hold, and for the last
  maxEntries of them when they are. In a cache keyed by SKU, for a shop domain without a
  colon, no returned mapping has the SKU of an unresolved SKU.
\<close>

theorem getIngramMappingsForSkus_no_fallback:
  "effects (getIngramMappingsForSkus world now0 now1 now2 shop skus (Some False) c)
     = map (\<lambda>row. CacheWrite (skuCacheKey shop (fst row)) (Some (shaped row)) None)
         (askedRows world now0 shop skus c) @
       map (\<lambda>s. CacheWrite (skuCacheKey shop s) None (Some 60000))
         (unresolvedSkus world now0 shop skus c) \<and>
   mappings (getIngramMappingsForSkus world now0 now1 now2 shop skus (Some False) c)
     = Inr (cacheHits now0 shop skus c @ map shaped (askedRows world now0 shop skus c)) \<and>
   (skuCacheBounded c \<longrightarrow>
      (\<forall>s \<in> set (drop (length (unresolvedSkus world now0 shop skus c) - nat (maxEntries c))
                    (unresolvedSkus world now0 shop skus c)).
         map_of (store (skuCacheAfter
                   (getIngramMappingsForSkus world now0 now1 now2 shop skus (Some False) c)))
           (skuCacheKey shop s) = Some (None, now1 + 60000) \<and>
         (\<forall>t. fst (cacheGet t (skuCacheKey shop s)
                      (skuCacheAfter
                         (getIngramMappingsForSkus world now0 now1 now2 shop skus (Some False) c)))
                 = (if t < now1 + 60000 then Some None else None)))) \<and>
   (skuCacheKeyed c \<and> CHR '':'' \<notin> set shop \<longrightarrow>
      (\<forall>m \<in> set (cacheHits now0 shop skus c @ map shaped (askedRows world now0 shop skus c)).
         sku m \<notin> set (unresolvedSkus world now0 shop skus c)))"
proof -
  let ?out = "getIngramMappingsForSkus world now0 now1 now2 shop skus (Some False) c"
  let ?unres = "unresolvedSkus world now0 shop skus c"
  let ?rows = "askedRows world now0 shop skus c"
  have eff: "effects ?out
      = map (\<lambda>row. CacheWrite (skuCacheKey shop (fst row)) (Some (shaped row)) None) ?rows @
        map (\<lambda>s. CacheWrite (skuCacheKey shop s) None (Some 60000)) ?unres"
    by (rule noFallback_effects)
  have res: "mappings ?out = Inr (cacheHits now0 shop skus c @ map shaped ?rows)"
    by (simp add: noFallback_eq)
  have neg: "map_of (store (skuCacheAfter ?out)) (skuCacheKey shop s) = Some (None, now1 + 60000) \<and>
      (\<forall>t. fst (cacheGet t (skuCacheKey shop s) (skuCacheAfter ?out))
             = (if t < now1 + 60000 then Some None else None))"
    if inv: "skuCacheBounded c" and s: "s \<in> set (drop (length ?unres - nat (maxEntries c)) ?unres)" for s
  proof -
    note b = inv [unfolded skuCacheBounded_iff]
    note st = noFallback_store [OF b [THEN conjunct1] b [THEN conjunct2], where shop = shop and world = world
      and ?now0.0 = now0 and skus = skus and ?now1.0 = now1 and ?now2.0 = now2]
    from st(1) obtain S where "store (skuCacheAfter ?out)
        = S @ map (\<lambda>s. (skuCacheKey shop s, None, now1 + 60000))
                (drop (length ?unres - nat (maxEntries c)) ?unres)"
      by blast
    then have "(skuCacheKey shop s, None, now1 + 60000) \<in> set (store (skuCacheAfter ?out))"
      using s by simp
    then have e: "map_of (store (skuCacheAfter ?out)) (skuCacheKey shop s) = Some (None, now1 + 60000)"
      using st(2) by simp
    show ?thesis
      using e cacheGet_live [OF e] by simp
  qed
  have clean: "sku m \<notin> set ?unres"
    if inv: "skuCacheKeyed c" and shop: "CHR '':'' \<notin> set shop"
      and m: "m \<in> set (cacheHits now0 shop skus c @ map shaped ?rows)" for m
  proof -
    from m consider "m \<in> set (cacheHits now0 shop skus c)" | "m \<in> set (map shaped ?rows)"
      by auto
    then show ?thesis
    proof cases
      case 1
      then have "liveEntry c now0 (skuCacheKey shop (sku m)) \<noteq> None"
        using cacheHits_sku [OF inv shop] by blast
      then show ?thesis
        by (simp add: unresolvedSkus_def cacheMisses_def)
    next
      case 2
      then have "sku m \<in> fst ` set ?rows"
        by (rule set_map_shaped)
      then show ?thesis
        by (simp add: unresolvedSkus_def)
    qed
  qed
  from eff res neg clean show ?thesis
    by blast
qed

text \<open>
  Witness of C6: the example call on the empty cache. S1 comes from the local store; S2
  and S3 stay unresolved, are not returned, and are in the cache as negative entries
  that are live until 60010.
\<close>

theorem getIngramMappingsForSkus_no_fallback_witness:
  "skuCacheBounded initialSkuCache \<and> skuCacheKeyed initialSkuCache \<and>
   CHR '':'' \<notin> set ''shop'' \<and>
   unresolvedSkus exWorld 0 ''shop'' exSkus initialSkuCache = [''S2'', ''S3''] \<and>
   effects exNoFallback
     = [CacheWrite ''shop::S1'' (Some (shaped (''S1'', ''P1''))) None,
        CacheWrite ''shop::S2'' None (Some 60000),
        CacheWrite ''shop::S3'' None (Some 60000)] \<and>
   mappings exNoFallback = Inr [shaped (''S1'', ''P1'')] \<and>
   map_of (store (skuCacheAfter exNoFallback)) ''shop::S2'' = Some (None, 60010) \<and>
   map_of (store (skuCacheAfter exNoFallback)) ''shop::S3'' = Some (None, 60010) \<and>
   fst (cacheGet 60009 ''shop::S3'' (skuCacheAfter exNoFallback)) = Some None \<and>
   fst (cacheGet 60010 ''shop::S3'' (skuCacheAfter exNoFallback)) = None \<and>
   sku (shaped (''S1'', ''P1'')) \<notin> set [''S2'', ''S3'']"
proof -
  have inv: "skuCacheBounded initialSkuCache"
    by (simp add: skuCacheBounded_def initialSkuCache_def createTtlCache_def cacheKeys_def
        cacheSize_def)
  have keyed: "skuCacheKeyed initialSkuCache"
    by (simp add: skuCacheKeyed_def initialSkuCache_def createTtlCache_def)
  have shop: "CHR '':'' \<notin> set ''shop''"
    by simp
  have u: "unresolvedSkus exWorld 0 ''shop'' exSkus initialSkuCache = [''S2'', ''S3'']"
    by code_simp
  have rows: "askedRows exWorld 0 ''shop'' exSkus initialSkuCache = [(''S1'', ''P1'')]"
    by code_simp
  have hits: "cacheHits 0 ''shop'' exSkus initialSkuCache = []"
    by code_simp
  have mx: "nat (maxEntries initialSkuCache) = 10000"
    by (simp add: initialSkuCache_def createTtlCache_def)
  note t = getIngramMappingsForSkus_no_fallback
    [where world = exWorld and ?now0.0 = 0 and ?now1.0 = 10 and ?now2.0 = 20 and shop = "''shop''"
      and skus = exSkus and c = initialSkuCache, folded exNoFallback_def, unfolded u rows hits mx]
  have e: "effects exNoFallback
     = [CacheWrite ''shop::S1'' (Some (shaped (''S1'', ''P1''))) None,
        CacheWrite ''shop::S2'' None (Some 60000),
        CacheWrite ''shop::S3'' None (Some 60000)]"
    using t by (simp add: skuCacheKey_def)
  have r: "mappings exNoFallback = Inr [shaped (''S1'', ''P1'')]"
    using t by simp
  have n: "\<forall>s \<in> set [''S2'', ''S3''].
      map_of (store (skuCacheAfter exNoFallback)) (skuCacheKey ''shop'' s) = Some (None, 10 + 60000) \<and>
      (\<forall>t. fst (cacheGet t (skuCacheKey ''shop'' s) (skuCacheAfter exNoFallback))
             = (if t < 10 + 60000 then Some None else None))"
    using t inv by simp
  have c: "\<forall>m \<in> set [shaped (''S1'', ''P1'')]. sku m \<notin> set [''S2'', ''S3'']"
    using t keyed shop by simp
  have n2: "map_of (store (skuCacheAfter exNoFallback)) ''shop::S2'' = Some (None, 60010)"
    and n3: "map_of (store (skuCacheAfter exNoFallback)) ''shop::S3'' = Some (None, 60010)"
    and g: "\<And>t. fst (cacheGet t ''shop::S3'' (skuCacheAfter exNoFallback))
             = (if t < 60010 then Some None else None)"
    using n by (simp_all add: skuCacheKey_def)
  show ?thesis
    using inv keyed u e r n2 n3 g [of 60009] g [of 60010] c by simp
qed

subsection \<open>Where a call without remote fallback leaves the words of the specification\<close>

lemma trim_letters:
  assumes "\<not> isWhiteSpace ch"
  shows "trim (replicate (Suc n) ch) = replicate (Suc n) ch"
proof -
  have "rev (replicate (Suc n) ch) = replicate (Suc n) ch"
    by (rule rev_replicate)
  then have "dropWhile isWhiteSpace (rev (replicate (Suc n) ch)) = replicate (Suc n) ch"
    using assms by simp
  moreover have "dropWhile isWhiteSpace (replicate (Suc n) ch) = replicate (Suc n) ch"
    using assms by simp
  ultimately show ?thesis
    unfolding trim_def by (simp only: rev_replicate)
qed

lemma manySkus_normalized:
  "normalizeSkus (map (\<lambda>n. Some (replicate (Suc n) (CHR ''x''))) [0..<N])
     = map (\<lambda>n. replicate (Suc n) (CHR ''x'')) [0..<N]"
proof -
  have ws: "\<not> isWhiteSpace (CHR ''x'')"
    by (simp add: isWhiteSpace_def)
  have "inj_on (\<lambda>n. replicate (Suc n) (CHR ''x'')) (set [0..<N])"
    by (rule inj_onI) (metis length_replicate nat.inject)
  then have d: "distinct (map (\<lambda>n. replicate (Suc n) (CHR ''x'')) [0..<N])"
    by (simp add: distinct_map)
  have "map (\<lambda>s. orElse (optTrim s) []) (map (\<lambda>n. Some (replicate (Suc n) (CHR ''x''))) [0..<N])
      = map (\<lambda>n. replicate (Suc n) (CHR ''x'')) [0..<N]"
    using trim_letters [OF ws] by (simp add: optTrim_def orElse_def)
  moreover have "filter (\<lambda>s. s \<noteq> []) (map (\<lambda>n. replicate (Suc n) (CHR ''x'')) [0..<N])
      = map (\<lambda>n. replicate (Suc n) (CHR ''x'')) [0..<N]"
    by (simp add: filter_map comp_def)
  ultimately show ?thesis
    unfolding normalizeSkus_def using setInsertionOrder_id [OF d] by (simp only:)
qed

lemma manySkus_evicted:
  assumes "10000 < N"
  shows "unresolvedSkus exRemoteWorld now0 shop
           (map (\<lambda>n. Some (replicate (Suc n) (CHR ''x''))) [0..<N]) initialSkuCache
           = map (\<lambda>n. replicate (Suc n) (CHR ''x'')) [0..<N]"
    and "map_of (store (skuCacheAfter
           (getIngramMappingsForSkus exRemoteWorld now0 now1 now2 shop
              (map (\<lambda>n. Some (replicate (Suc n) (CHR ''x''))) [0..<N]) (Some False)
              initialSkuCache)))
           (skuCacheKey shop ''x'') = None"
  supply replicate.simps [simp del]
proof -
  let ?skus = "map (\<lambda>n. Some (replicate (Suc n) (CHR ''x''))) [0..<N]"
  let ?g = "\<lambda>n. replicate (Suc n) (CHR ''x'')"
  let ?out = "getIngramMappingsForSkus exRemoteWorld now0 now1 now2 shop ?skus (Some False)
      initialSkuCache"
  have empty: "store initialSkuCache = []" and mx: "maxEntries initialSkuCache = 10000"
    by (simp_all add: initialSkuCache_def createTtlCache_def)
  have live: "liveEntry initialSkuCache now0 k = None" for k
    by (simp add: liveEntry_def empty)
  have misses: "cacheMisses now0 shop ?skus initialSkuCache = map ?g [0..<N]"
    by (simp add: cacheMisses_def manySkus_normalized live)
  have rows: "askedRows exRemoteWorld now0 shop ?skus initialSkuCache = []"
    by (simp add: askedRows_def exRemoteWorld_def)
  show u: "unresolvedSkus exRemoteWorld now0 shop ?skus initialSkuCache = map ?g [0..<N]"
    by (simp add: unresolvedSkus_def rows misses)
  have "distinct (map fst (store initialSkuCache))"
    and "int (length (store initialSkuCache)) \<le> maxEntries initialSkuCache"
    by (simp_all add: empty mx)
  from noFallback_store(1) [OF this, where shop = shop and world = exRemoteWorld
      and ?now0.0 = now0 and skus = ?skus and ?now1.0 = now1 and ?now2.0 = now2]
  obtain S where S: "fst ` set S \<subseteq> {}"
    and st: "store (skuCacheAfter ?out)
      = S @ map (\<lambda>s. (skuCacheKey shop s, None, now1 + 60000))
              (drop (N - 10000) (map ?g [0..<N]))"
    unfolding u rows empty mx by auto
  have S': "S = []"
    using S by simp
  have "drop (N - 10000) (map ?g [0..<N]) = map ?g [N - 10000..<N]"
    by (simp add: drop_map)
  moreover have "''x'' \<notin> set (map ?g [N - 10000..<N])"
  proof
    assume "''x'' \<in> set (map ?g [N - 10000..<N])"
    then obtain n where "N - 10000 \<le> n" and "''x'' = replicate (Suc n) (CHR ''x'')"
      by auto
    then have "length ''x'' = length (replicate (Suc n) (CHR ''x''))" and "0 < n"
      using assms by simp_all
    then show False
      by simp
  qed
  ultimately have "skuCacheKey shop ''x'' \<notin> fst ` set (store (skuCacheAfter ?out))"
    by (auto simp: st S' skuCacheKey_inj)
  then show "map_of (store (skuCacheAfter ?out)) (skuCacheKey shop ''x'') = None"
    by (simp add: map_of_eq_None_iff)
qed

text \<open>
  Counterexample to C6 as stated, in two parts. The first call, for the shop domain
  \<open>a::b\<close>, leaves the mapping of the SKU \<open>c\<close> in the cache under the key
  \<open>a::b::c\<close>; the second call, for the shop domain \<open>a\<close> with the fallback off, finds it
  under the key of its SKU \<open>b::c\<close> and returns it, a mapping of the SKU \<open>c\<close>, while
  \<open>c\<close> itself is unresolved and gets its negative entry. And of 10001 unresolved SKUs
  in one call on the empty cache, which holds 10000 entries, the first, \<open>x\<close>, has no
  entry in the cache when the call returns.
\<close>

theorem getIngramMappingsForSkus_no_fallback_counterexample:
  "(mappings exFirstCall = Inr [shaped (''c'', ''P'')] \<and>
    mappings exSecondCall = Inr [shaped (''c'', ''P'')] \<and>
    unresolvedSkus exRemoteWorld 3 ''a'' [Some ''b::c'', Some ''c''] (skuCacheAfter exFirstCall)
      = [''c''] \<and>
    effects exSecondCall = [CacheWrite ''a::c'' None (Some 60000)]) \<and>
   (length exManySkus = 10001 \<and>
    ''x'' \<in> set (unresolvedSkus exRemoteWorld 0 ''a'' exManySkus initialSkuCache) \<and>
    map_of (store (skuCacheAfter exManyCall)) (skuCacheKey ''a'' ''x'') = None)"
proof -
  have "mappings exFirstCall = Inr [shaped (''c'', ''P'')]"
    by code_simp
  moreover have "mappings exSecondCall = Inr [shaped (''c'', ''P'')]"
    by code_simp
  moreover have "unresolvedSkus exRemoteWorld 3 ''a'' [Some ''b::c'', Some ''c'']
      (skuCacheAfter exFirstCall) = [''c'']"
    by code_simp
  moreover have "effects exSecondCall = [CacheWrite ''a::c'' None (Some 60000)]"
    by code_simp
  moreover have "length exManySkus = 10001"
    by (simp add: exManySkus_def)
  moreover have "''x'' \<in> set (unresolvedSkus exRemoteWorld 0 ''a'' exManySkus initialSkuCache)"
  proof -
    have u: "unresolvedSkus exRemoteWorld 0 ''a'' exManySkus initialSkuCache
        = map (\<lambda>n. replicate (Suc n) (CHR ''x'')) [0..<10001]"
      unfolding exManySkus_def by (rule manySkus_evicted(1)) simp
    show ?thesis
      unfolding u set_map by (rule image_eqI [where x = 0]) simp_all
  qed
  moreover have "map_of (store (skuCacheAfter exManyCall)) (skuCacheKey ''a'' ''x'') = None"
    unfolding exManyCall_def exManySkus_def by (rule manySkus_evicted(2)) simp
  ultimately show ?thesis
    by blast
qed

section \<open>Properties of the cart estimate endpoint\<close>

lemma safeAnswer_failure: "safeAnswer (failure 200 msg)"
  by (simp add: safeAnswer_def failure_def)

lemma actionBody_accepted:
  assumes "accepted w b a its"
  shows "actionBody w =
     (case mappingsForSkus w (orElse (reqShop b) []) (uniqueSkusOf its) of
        Inl e \<Rightarrow> Inl e
      | Inr ms \<Rightarrow>
          if missingSkusOf ms (uniqueSkusOf its) \<noteq> []
          then Inr (failure 200 ''Some products are not available for shipping estimate'')
          else
            (case cartLines (mappingArrayToRecord ms) (enumerate 0 its) of
               Inl e \<Rightarrow> Inl e
             | Inr ls \<Rightarrow>
                 (case freightEstimate w (orElse (reqShop b) [])
                         \<lparr> shipToAddress = cartShipTo a, lines = Some ls,
                           billToAddressId = None, shipToAddressId = None \<rparr> of
                    Inl e \<Rightarrow> Inl e
                  | Inr summary \<Rightarrow> answerRates w (orElse (reqShop b) []) summary)))"
  using assms by (simp add: accepted_def actionBody_def)

lemma answerRates_none:
  assumes "distributionsOf summary = [] \<or> combineRates (distributionsOf summary) = []"
  shows "answerRates w shopV summary = Inr (failure 200 ''No shipping options available for this address'')
       \<or> answerRates w shopV summary = Inr (failure 200 ''No common shipping options available'')"
proof (cases "distributionsOf summary = []")
  case True
  then show ?thesis
    by (simp add: answerRates_def distributionsOf_def Let_def)
next
  case False
  with assms have "combineRates (distributionsOf summary) = []"
    by simp
  with False show ?thesis
    by (simp add: answerRates_def distributionsOf_def [symmetric] Let_def)
qed

text \<open>
  A gap that the handler finds, the outcome without usable rates and an exception in the
  \<open>try\<close> block are answered with status 200 and a body that reports the failure.
\<close>

lemma action_reportedGap:
  assumes "accepted w b a its"
    and "mappingsForSkus w (orElse (reqShop b) []) (uniqueSkusOf its) = Inr ms"
    and "missingSkusOf ms (uniqueSkusOf its) \<noteq> []"
  shows "action w = failure 200 ''Some products are not available for shipping estimate''"
proof -
  have "actionBody w = Inr (failure 200 ''Some products are not available for shipping estimate'')"
    using assms(2,3) by (simp add: actionBody_accepted [OF assms(1)])
  moreover have "requestMethod w \<noteq> ''OPTIONS''"
    using assms(1) by (simp add: accepted_def)
  ultimately show ?thesis
    by (simp add: action_def)
qed

lemma action_noUsableRates:
  assumes "noUsableRates w b a its"
  shows "action w = failure 200 ''No shipping options available for this address''
       \<or> action w = failure 200 ''No common shipping options available''"
proof -
  from assms have acc: "accepted w b a its"
    by (simp add: noUsableRates_def)
  from assms obtain summary where est: "estimateOf w b a its = Some (Inr summary)"
    and none: "distributionsOf summary = [] \<or> combineRates (distributionsOf summary) = []"
    by (auto simp: noUsableRates_def split: option.splits sum.splits)
  from est obtain ms ls
    where ms: "mappingsForSkus w (orElse (reqShop b) []) (uniqueSkusOf its) = Inr ms"
      and nomiss: "missingSkusOf ms (uniqueSkusOf its) = []"
      and ls: "cartLines (mappingArrayToRecord ms) (enumerate 0 its) = Inr ls"
      and fr: "freightEstimate w (orElse (reqShop b) [])
                 \<lparr> shipToAddress = cartShipTo a, lines = Some ls,
                   billToAddressId = None, shipToAddressId = None \<rparr> = Inr summary"
    by (auto simp: estimateOf_def split: sum.splits if_splits)
  have "actionBody w = answerRates w (orElse (reqShop b) []) summary"
    by (simp add: actionBody_accepted [OF acc] ms nomiss ls fr)
  moreover have "requestMethod w \<noteq> ''OPTIONS''"
    using acc by (simp add: accepted_def)
  ultimately show ?thesis
    using answerRates_none [OF none, of w "orElse (reqShop b) []"]
    by (auto simp: action_def)
qed

lemma action_internalError:
  assumes "internalError w"
  shows "action w = failure 200 ''Unable to calculate shipping estimate''"
  using assms by (auto simp: internalError_def action_def split: sum.splits)

text \<open>
  The handler finds the SKUs without a mapping when no SKU of the cart is the name of a
  property of \<open>Object.prototype\<close> and no mapping has the SKU \<open>__proto__\<close>.
\<close>

lemma mappingArrayToRecord_snoc:
  "mappingArrayToRecord (ms @ [m])
     = (if sku m = ''__proto__'' then (mappingArrayToRecord ms) \<lparr> prototypeOf := Some m \<rparr>
        else (mappingArrayToRecord ms)
               \<lparr> ownProperties := AList.update (sku m) m (ownProperties (mappingArrayToRecord ms)) \<rparr>)"
  by (simp add: mappingArrayToRecord_def)

lemma mappingArrayToRecord_own:
  assumes "''__proto__'' \<notin> sku ` set ms"
  shows "prototypeOf (mappingArrayToRecord ms) = None \<and>
         fst ` set (ownProperties (mappingArrayToRecord ms)) = sku ` set ms"
  using assms
proof (induction ms rule: rev_induct)
  case Nil
  show ?case
    by (simp add: mappingArrayToRecord_def)
next
  case (snoc m ms)
  then show ?case
    by (auto simp: mappingArrayToRecord_snoc dom_update)
qed

lemma missingSkusOf_unmapped:
  assumes "''__proto__'' \<notin> sku ` set ms" and "set uniqueSkus \<inter> set objectPrototypeNames = {}"
  shows "missingSkusOf ms uniqueSkus = unmappedSkus ms uniqueSkus"
proof -
  note own = mappingArrayToRecord_own [OF assms(1)]
  have "truthy (getProperty (mappingArrayToRecord ms) s) \<longleftrightarrow> s \<in> sku ` set ms"
    if "s \<in> set uniqueSkus" for s
  proof (cases "map_of (ownProperties (mappingArrayToRecord ms)) s")
    case None
    then have "s \<notin> sku ` set ms"
      using own by (simp add: map_of_eq_None_iff)
    moreover have "s \<notin> set objectPrototypeNames"
      using that assms(2) by blast
    ultimately show ?thesis
      using None own by (simp add: getProperty_def inheritedFromObject_def)
  next
    case (Some m)
    then have "s \<in> fst ` set (ownProperties (mappingArrayToRecord ms))"
      by (meson domI dom_map_of_conv_image_fst [THEN equalityD1, THEN subsetD] map_of_eq_None_iff option.distinct(1))
    then show ?thesis
      using Some own by (simp add: getProperty_def)
  qed
  then show ?thesis
    unfolding missingSkusOf_def unmappedSkus_def by (intro filter_cong) simp_all
qed

lemma action_mappingGap:
  assumes "mappingGap w b a its"
    and "mappingsForSkus w (orElse (reqShop b) []) (uniqueSkusOf its) = Inr ms"
    and "''__proto__'' \<notin> sku ` set ms"
    and "set (uniqueSkusOf its) \<inter> set objectPrototypeNames = {}"
  shows "action w = failure 200 ''Some products are not available for shipping estimate''"
proof -
  have "accepted w b a its" and "unmappedSkus ms (uniqueSkusOf its) \<noteq> []"
    using assms(1,2) by (simp_all add: mappingGap_def)
  then show ?thesis
    using action_reportedGap [of w b a its ms] assms(2) missingSkusOf_unmapped [OF assms(3,4)]
    by simp
qed

text \<open>
  C7 fails on the code where the mapping gap is on a SKU that is the name of a property
  every object inherits. In the example cart the SKU \<open>constructor\<close> has no mapping and
  the cart has a mapping gap; the handler finds no SKU missing, because
  \<open>mappingRecord["constructor"]\<close> is the constructor function that the plain object
  inherits, sends the distributor a line without a part number, and answers the
  distributor's rates with status 200 and success = true, which is no safe answer.
\<close>

theorem action_inherited_sku_unsafe:
  "uniqueSkusOf exCartInheritedItems = [''S1'', ''constructor''] \<and>
   mappingsForSkus exCartInherited ''shop.example.com'' [''S1'', ''constructor'']
     = Inr [shaped (''S1'', ''P1'')] \<and>
   unmappedSkus [shaped (''S1'', ''P1'')] [''S1'', ''constructor''] = [''constructor''] \<and>
   mappingGap exCartInherited exCartInheritedRequest exCartAddress exCartInheritedItems \<and>
   missingSkusOf [shaped (''S1'', ''P1'')] [''S1'', ''constructor''] = [] \<and>
   map lineIngramPartNumber
     (projr (cartLines (mappingArrayToRecord [shaped (''S1'', ''P1'')])
               (enumerate 0 exCartInheritedItems))) = [Some ''P1'', None] \<and>
   action exCartInherited =
     \<lparr> status = 200,
       body = Some \<lparr> success = True,
                     rates = Some [\<lparr> rateName = ''UPS'', rateCode = ''INGRAM_UPS'', ratePrice = 10,
                                     rateCurrency = ''USD'',
                                     rateDescription = ''2 business days'' \<rparr>],
                     error = None \<rparr> \<rparr> \<and>
   \<not> safeAnswer (action exCartInherited)"
  by code_simp

end
